theory Spec2Isabelle
  imports Complex_Main "HOL-Library.Sublist" "HOL-Library.Stream" "HOL-Library.Signed_Division"
begin

section \<open>Letter Invaders: the simulation and matching engine\<close>

text \<open>
  The repository holds two revisions of \<^verbatim>\<open>main.go\<close>. The first (called variant A here)
  has no particle effects, a word cap of 10 and a dictionary loader that keeps every
  non-blank line. The second (variant B) adds the explosion effects, a word cap of 8, a
  minimum number of live words and a loader that keeps lines of 1 to 12 bytes. Functions
  that are the same text in both revisions are defined once; the others carry the suffix
  \<open>A\<close> or \<open>B\<close>.

  Go's \<^verbatim>\<open>int\<close> is modelled by the mathematical integers: every counter starts at 0, 1 or
  3 and moves by small steps per event, so the 64-bit range plays no role. A value of
  type \<^verbatim>\<open>float64\<close> is the real number it denotes, and every floating-point operation
  rounds its exact result to the nearest number with a significand of 53 bits, ties to
  even (see below). Strings are byte lists, as Go's \<^verbatim>\<open>len\<close> counts bytes.
\<close>

subsection \<open>Constants\<close>

definition screenWidth :: int where "screenWidth = 80"
definition screenHeight :: int where "screenHeight = 23"
definition statusHeight :: int where "statusHeight = 2"
definition gameHeight :: int where "gameHeight = screenHeight - statusHeight"

subsection \<open>Arithmetic in \<^verbatim>\<open>float64\<close>\<close>

text \<open>
  \<open>round_even r\<close> is the integer nearest to \<open>r\<close>, the even one of the two when \<open>r\<close> lies
  halfway. \<open>round64 x\<close> is the \<^verbatim>\<open>float64\<close> nearest to \<open>x\<close>: for \<open>2^e \<le> |x| < 2^(e+1)\<close> the
  numbers of the format are the multiples of \<open>2^(e-52)\<close>. The exponent is not bounded
  here, so overflow to infinity and the subnormal numbers below \<open>2^-1022\<close> are left out, and
  so is NaN; the numbers of this program (chances, speeds, angles and screen coordinates)
  are far away from both ends. An operation on \<^verbatim>\<open>float64\<close> rounds its exact result, each
  operation on its own: a product and the sum that uses it are rounded one after the
  other, as the compiler does for amd64 (it fuses them on some other machines). A decimal
  literal of the source stands for the \<^verbatim>\<open>float64\<close> nearest to it; \<open>0.5\<close>, \<open>1.5\<close> and \<open>2.0\<close> are
  such numbers themselves and are written as they are.
\<close>

definition round_even :: "real \<Rightarrow> int" where
  "round_even r =
     (let f = \<lfloor>r\<rfloor>
      in if r - of_int f < 1/2 then f
         else if 1/2 < r - of_int f then f + 1
         else if even f then f else f + 1)"

definition round64 :: "real \<Rightarrow> real" where
  "round64 x =
     (if x = 0 then 0
      else (let u = 2 powi (\<lfloor>log 2 \<bar>x\<bar>\<rfloor> - 52)
            in u * of_int (round_even (x / u))))"

text \<open>The conversion \<^verbatim>\<open>float64(n)\<close> of an integer, and \<^verbatim>\<open>+\<close>, \<^verbatim>\<open>*\<close> and \<^verbatim>\<open>/\<close> on \<^verbatim>\<open>float64\<close>.\<close>

definition float64 :: "int \<Rightarrow> real" where
  "float64 n = round64 (of_int n)"

definition fadd :: "real \<Rightarrow> real \<Rightarrow> real" where
  "fadd x y = round64 (x + y)"

definition fmul :: "real \<Rightarrow> real \<Rightarrow> real" where
  "fmul x y = round64 (x * y)"

definition fdiv :: "real \<Rightarrow> real \<Rightarrow> real" where
  "fdiv x y = round64 (x / y)"

text \<open>
  \<^verbatim>\<open>math.Cos\<close> and \<^verbatim>\<open>math.Sin\<close> are library functions whose code is not part of the
  repository, and their results are not correctly rounded in general. All that is used
  of them here is what the library documents: they map a \<^verbatim>\<open>float64\<close> to a \<^verbatim>\<open>float64\<close>, and
  \<^verbatim>\<open>Sin(0) = 0\<close>. Every statement about them below holds for whatever functions of that
  kind the library provides.
\<close>

definition Cos64 :: "real \<Rightarrow> real" where
  "Cos64 = (SOME f. \<forall>x. round64 (f x) = f x)"

definition Sin64 :: "real \<Rightarrow> real" where
  "Sin64 = (SOME f. f 0 = 0 \<and> (\<forall>x. round64 (f x) = f x))"

subsection \<open>Data model\<close>

text \<open>The struct \<^verbatim>\<open>word\<close>; the fields are prefixed because \<open>text\<close> is a keyword.\<close>

record word =
  w_text :: string
  w_x :: int
  w_y :: int
  w_matched :: int

text \<open>The struct \<^verbatim>\<open>particle\<close>; its four \<^verbatim>\<open>float64\<close> fields hold the numbers they denote.\<close>

record particle =
  p_x :: real
  p_y :: real
  p_vx :: real
  p_vy :: real
  p_char :: char
  p_lifetime :: int

record effect =
  particles :: "particle list"

text \<open>
  The struct \<^verbatim>\<open>model\<close> of variant A. The pointer \<^verbatim>\<open>current *word\<close> is always either nil
  or \<^verbatim>\<open>&m.words[i]\<close>; it is represented by the index \<open>i\<close> of the slot it points to.
  \<^verbatim>\<open>startTime\<close> is a time stamp, kept as a number.
\<close>

record model =
  words :: "word list"
  score :: int
  level :: int
  lives :: int
  wordsTyped :: int
  dict :: "string list"
  current :: "nat option"
  input :: string
  gameOver :: bool
  paused :: bool
  startTime :: int
  width :: int
  height :: int

text \<open>Variant B's \<^verbatim>\<open>model\<close> has one more field, the list of running effects.\<close>

record modelB = model +
  effects :: "effect list"

datatype msg = KeyMsg string | TickMsg | WindowSizeMsg int int | OtherMsg

datatype cmd = NoCmd | Quit | ClearScreen | TickCmd

subsection \<open>The random source\<close>

text \<open>
  \<^verbatim>\<open>math/rand\<close> is a library with global state. It is modelled by an infinite stream of
  raw draws that is threaded through the functions that call it; each call consumes one
  draw. \<^verbatim>\<open>rand.Intn(n)\<close> panics for \<open>n \<le> 0\<close> and otherwise returns a value in \<open>[0, n)\<close>;
  \<^verbatim>\<open>rand.Float64()\<close> returns a multiple of \<open>2^-53\<close> in \<open>[0, 1)\<close>.
\<close>

type_synonym rng = "nat stream"

definition Intn :: "int \<Rightarrow> rng \<Rightarrow> (int \<times> rng) option" where
  "Intn n g = (if n \<le> 0 then None else Some (int (shd g) mod n, stl g))"

definition Float64 :: "rng \<Rightarrow> real \<times> rng" where
  "Float64 g = (real (shd g mod 2 ^ 53) / 2 ^ 53, stl g)"

subsection \<open>Initial state\<close>

definition initialModelA :: "string list \<Rightarrow> int \<Rightarrow> model" where
  "initialModelA d now =
     \<lparr>words = [], score = 0, level = 1, lives = 3, wordsTyped = 0, dict = d,
      current = None, input = [], gameOver = False, paused = False, startTime = now,
      width = screenWidth, height = screenHeight\<rparr>"

definition initialModelB :: "string list \<Rightarrow> int \<Rightarrow> modelB" where
  "initialModelB d now =
     \<lparr>words = [], score = 0, level = 1, lives = 3, wordsTyped = 0, dict = d,
      current = None, input = [], gameOver = False, paused = False, startTime = now,
      width = screenWidth, height = screenHeight, effects = []\<rparr>"

subsection \<open>Descent: \<^verbatim>\<open>moveWords\<close> (the same in both variants)\<close>

text \<open>
  The Go loop runs \<open>i\<close> from \<open>len(m.words) - 1\<close> down to 0. \<open>moveWordsLoop n\<close> is the loop
  with \<open>n\<close> indices still to visit, so the index visited next is \<open>n - 1\<close>.
  \<^verbatim>\<open>append(m.words[:i], m.words[i+1:]...)\<close> is \<open>take i ws @ drop (Suc i) ws\<close>.
\<close>

fun moveWordsLoop :: "nat \<Rightarrow> 'a model_scheme \<Rightarrow> 'a model_scheme" where
  "moveWordsLoop 0 m = m"
| "moveWordsLoop (Suc i) m =
     (let m1 = m\<lparr>words := (words m)[i := (words m ! i)\<lparr>w_y := w_y (words m ! i) + 1\<rparr>]\<rparr>
      in if w_y (words m1 ! i) \<ge> gameHeight then
           (let m2 = m1\<lparr>words := take i (words m1) @ drop (Suc i) (words m1)\<rparr>;
                m3 = m2\<lparr>lives := lives m2 - 1\<rparr>
            in moveWordsLoop i (if lives m3 \<le> 0 then m3\<lparr>gameOver := True\<rparr> else m3))
         else moveWordsLoop i m1)"

definition moveWords :: "'a model_scheme \<Rightarrow> 'a model_scheme" where
  "moveWords m = moveWordsLoop (length (words m)) m"

subsection \<open>Matching: \<^verbatim>\<open>matchWord\<close>\<close>

text \<open>
  The loop \<^verbatim>\<open>for i := range m.words\<close> returns from inside the body at the first word that
  has the input as a prefix; \<open>matchWordLoopA i\<close> is the loop from index \<open>i\<close> on.
\<close>

function matchWordLoopA :: "nat \<Rightarrow> model \<Rightarrow> model" where
  "matchWordLoopA i m =
     (if i < length (words m) then
        (if prefix (input m) (w_text (words m ! i)) then
           (let m1 = m\<lparr>current := Some i,
                        words := (words m)[i := (words m ! i)\<lparr>w_matched := int (length (input m))\<rparr>]\<rparr>
            in if input m1 = w_text (words m1 ! i) then
                 (let m2 = m1\<lparr>score := score m1 + int (length (w_text (words m1 ! i))) * (level m1 + 1)\<rparr>;
                      m3 = m2\<lparr>wordsTyped := wordsTyped m2 + 1\<rparr>;
                      m4 = m3\<lparr>words := take i (words m3) @ drop (Suc i) (words m3)\<rparr>;
                      m5 = m4\<lparr>input := [], current := None\<rparr>
                  in if wordsTyped m5 mod 15 = 0 then m5\<lparr>level := level m5 + 1\<rparr> else m5)
               else m1)
         else matchWordLoopA (Suc i) m)
      else m\<lparr>input := [], current := None\<rparr>)"
  by pat_completeness auto
termination
  by (relation "measure (\<lambda>(i, m). length (words m) - i)") auto

declare matchWordLoopA.simps [simp del]

definition matchWordA :: "model \<Rightarrow> model" where
  "matchWordA m = (if length (input m) = 0 then m\<lparr>current := None\<rparr> else matchWordLoopA 0 m)"

subsection \<open>Explosions: \<^verbatim>\<open>createExplosion\<close> (variant B)\<close>

definition chars :: "char list" where
  "chars = [CHR ''*'', CHR ''+'', CHR ''#'', CHR ''o'', CHR ''.'', CHR ''~'', CHR ''^'', CHR ''x'']"

text \<open>
  The loop \<^verbatim>\<open>for i := 0; i < numParticles; i++\<close>. \<^verbatim>\<open>i % wordLen\<close> panics (integer divide
  by zero) when \<open>wordLen = 0\<close>: the result \<open>None\<close>. Go's \<^verbatim>\<open>%\<close> truncates: \<open>smod\<close>.
  The draws are taken in the order of the source: the speed, the glyph, the lifetime.
  \<^verbatim>\<open>float64(i) * 2.0 * 3.14159 / float64(numParticles)\<close> associates to the left.
\<close>

function createExplosionLoop ::
  "nat \<Rightarrow> int \<Rightarrow> int \<Rightarrow> int \<Rightarrow> int \<Rightarrow> particle list \<Rightarrow> rng \<Rightarrow> (particle list \<times> rng) option" where
  "createExplosionLoop i numParticles ex ey wordLen ps g =
     (if int i < numParticles then
        (if wordLen = 0 then None
         else
           (let angle = fdiv (fmul (fmul (float64 (int i)) 2.0) (round64 3.14159))
                              (float64 numParticles);
                (u, g1) = Float64 g;
                speed = fadd 0.5 (fmul u 1.5)
            in case Intn (int (length chars)) g1 of
                 None \<Rightarrow> None
               | Some (c, g2) \<Rightarrow>
                   (case Intn 3 g2 of
                      None \<Rightarrow> None
                    | Some (l, g3) \<Rightarrow>
                        createExplosionLoop (Suc i) numParticles ex ey wordLen
                          (ps @ [\<lparr>p_x = fadd (float64 ex) (float64 (int i smod wordLen)),
                                  p_y = float64 ey,
                                  p_vx = fmul speed (Cos64 angle),
                                  p_vy = fmul speed (Sin64 angle),
                                  p_char = chars ! nat c,
                                  p_lifetime = 3 + l\<rparr>]) g3)))
      else Some (ps, g))"
  by pat_completeness auto
termination
  by (relation "measure (\<lambda>(i, n, ex, ey, wl, ps, g). nat (n - int i))") auto

declare createExplosionLoop.simps [simp del]

definition createExplosion :: "int \<Rightarrow> int \<Rightarrow> int \<Rightarrow> rng \<Rightarrow> (effect \<times> rng) option" where
  "createExplosion ex ey wordLen g =
     (case createExplosionLoop 0 (8 + wordLen * 2) ex ey wordLen [] g of
        None \<Rightarrow> None
      | Some (ps, g') \<Rightarrow> Some (\<lparr>particles = ps\<rparr>, g'))"

text \<open>Variant B's \<^verbatim>\<open>matchWord\<close>: as in variant A, with the explosion appended on a hit.\<close>

function matchWordLoopB :: "nat \<Rightarrow> modelB \<Rightarrow> rng \<Rightarrow> (modelB \<times> rng) option" where
  "matchWordLoopB i m g =
     (if i < length (words m) then
        (if prefix (input m) (w_text (words m ! i)) then
           (let m1 = m\<lparr>current := Some i,
                        words := (words m)[i := (words m ! i)\<lparr>w_matched := int (length (input m))\<rparr>]\<rparr>
            in if input m1 = w_text (words m1 ! i) then
                 (let m2 = m1\<lparr>score := score m1 + int (length (w_text (words m1 ! i))) * (level m1 + 1)\<rparr>;
                      m3 = m2\<lparr>wordsTyped := wordsTyped m2 + 1\<rparr>
                  in case createExplosion (w_x (words m3 ! i)) (w_y (words m3 ! i))
                            (int (length (w_text (words m3 ! i)))) g of
                       None \<Rightarrow> None
                     | Some (e, g') \<Rightarrow>
                         (let m4 = m3\<lparr>effects := effects m3 @ [e]\<rparr>;
                              m5 = m4\<lparr>words := take i (words m4) @ drop (Suc i) (words m4)\<rparr>;
                              m6 = m5\<lparr>input := [], current := None\<rparr>
                          in Some (if wordsTyped m6 mod 15 = 0 then m6\<lparr>level := level m6 + 1\<rparr> else m6, g')))
               else Some (m1, g))
         else matchWordLoopB (Suc i) m g)
      else Some (m\<lparr>input := [], current := None\<rparr>, g))"
  by pat_completeness auto
termination
  by (relation "measure (\<lambda>(i, m, g). length (words m) - i)") auto

declare matchWordLoopB.simps [simp del]

definition matchWordB :: "modelB \<Rightarrow> rng \<Rightarrow> (modelB \<times> rng) option" where
  "matchWordB m g =
     (if length (input m) = 0 then Some (m\<lparr>current := None\<rparr>, g) else matchWordLoopB 0 m g)"

subsection \<open>Effect decay: \<^verbatim>\<open>updateEffects\<close> (variant B)\<close>

text \<open>Both loops run backwards; the first argument counts the indices still to visit.\<close>

fun updateParticlesLoop :: "nat \<Rightarrow> particle list \<Rightarrow> particle list" where
  "updateParticlesLoop 0 ps = ps"
| "updateParticlesLoop (Suc j) ps =
     (let p = ps ! j;
          ps1 = ps[j := p\<lparr>p_x := fadd (p_x p) (p_vx p), p_y := fadd (p_y p) (p_vy p),
                           p_lifetime := p_lifetime p - 1\<rparr>]
      in updateParticlesLoop j
           (if p_lifetime (ps1 ! j) \<le> 0 then take j ps1 @ drop (Suc j) ps1 else ps1))"

fun updateEffectsLoop :: "nat \<Rightarrow> modelB \<Rightarrow> modelB" where
  "updateEffectsLoop 0 m = m"
| "updateEffectsLoop (Suc i) m =
     (let e = effects m ! i;
          m1 = m\<lparr>effects := (effects m)
                  [i := e\<lparr>particles := updateParticlesLoop (length (particles e)) (particles e)\<rparr>]\<rparr>
      in updateEffectsLoop i
           (if length (particles (effects m1 ! i)) = 0
            then m1\<lparr>effects := take i (effects m1) @ drop (Suc i) (effects m1)\<rparr>
            else m1))"

definition updateEffects :: "modelB \<Rightarrow> modelB" where
  "updateEffects m = updateEffectsLoop (length (effects m)) m"

subsection \<open>Spawning: \<^verbatim>\<open>maybeAddWord\<close>\<close>

text \<open>
  The part both variants share: draw the text and the column and append the word.
  \<^verbatim>\<open>m.dict[rand.Intn(len(m.dict))]\<close> panics on an empty dictionary (\<open>None\<close>).
\<close>

definition addWord :: "'a model_scheme \<Rightarrow> rng \<Rightarrow> ('a model_scheme \<times> rng) option" where
  "addWord m g =
     (case Intn (int (length (dict m))) g of
        None \<Rightarrow> None
      | Some (k, g1) \<Rightarrow>
          (let newWord = dict m ! nat k;
               maxX = screenWidth - int (length newWord) - 1;
               maxX' = (if maxX < 0 then 0 else maxX)
           in case Intn (maxX' + 1) g1 of
                None \<Rightarrow> None
              | Some (xv, g2) \<Rightarrow>
                  Some (m\<lparr>words := words m @
                            [\<lparr>w_text = newWord, w_x = xv, w_y = 0, w_matched = 0\<rparr>]\<rparr>, g2)))"

text \<open>
  The right-hand sides of the two comparisons with the draw,
  \<^verbatim>\<open>0.15+float64(m.level)*0.02\<close> in variant A and \<^verbatim>\<open>0.08+float64(m.level)*0.01\<close> in variant
  B, as functions of the level.
\<close>

definition spawnChanceA :: "int \<Rightarrow> real" where
  "spawnChanceA l = fadd (round64 0.15) (fmul (float64 l) (round64 0.02))"

definition spawnChanceB :: "int \<Rightarrow> real" where
  "spawnChanceB l = fadd (round64 0.08) (fmul (float64 l) (round64 0.01))"

definition maybeAddWordA :: "model \<Rightarrow> rng \<Rightarrow> (model \<times> rng) option" where
  "maybeAddWordA m g =
     (if length (words m) \<ge> 10 then Some (m, g)
      else
        (let (r, g1) = Float64 g
         in if r < spawnChanceA (level m) then addWord m g1 else Some (m, g1)))"

text \<open>
  In variant B the \<^verbatim>\<open>||\<close> is short-circuit: below the minimum no draw is taken for the
  spawn decision. \<^verbatim>\<open>m.level/3\<close> truncates: \<open>sdiv\<close>.
\<close>

definition maybeAddWordB :: "modelB \<Rightarrow> rng \<Rightarrow> (modelB \<times> rng) option" where
  "maybeAddWordB m g =
     (if length (words m) \<ge> 8 then Some (m, g)
      else
        (let minWords = 1 + level m sdiv 3
         in if int (length (words m)) < minWords then addWord m g
            else
              (let (r, g1) = Float64 g
               in if r < spawnChanceB (level m) then addWord m g1
                  else Some (m, g1))))"

subsection \<open>The event handler: \<^verbatim>\<open>Update\<close>\<close>

text \<open>
  A key message is represented by \<^verbatim>\<open>msg.String()\<close>. The test
  \<^verbatim>\<open>len(s) == 1 && s >= "a" && s <= "z"\<close> on a one-byte string compares that byte.
\<close>

definition isLetter :: "string \<Rightarrow> bool" where
  "isLetter k = (length k = 1 \<and> 97 \<le> (of_char (hd k) :: nat) \<and> (of_char (hd k) :: nat) \<le> 122)"

text \<open>
  The backspace branch, which is the same text in both variants: drop the last byte of a
  non-empty input, then clear the current-word pointer.
\<close>

definition backspace :: "'a model_scheme \<Rightarrow> 'a model_scheme" where
  "backspace m =
     (let m1 = (if length (input m) > 0 then m\<lparr>input := take (length (input m) - 1) (input m)\<rparr> else m)
      in m1\<lparr>current := None\<rparr>)"

fun UpdateA :: "msg \<Rightarrow> model \<Rightarrow> rng \<Rightarrow> ((model \<times> cmd) \<times> rng) option" where
  "UpdateA (KeyMsg k) m g =
     (if gameOver m then
        (if k = ''q'' \<or> k = ''ctrl+c'' then Some ((m, Quit), g) else Some ((m, NoCmd), g))
      else if k = ''ctrl+c'' \<or> k = ''q'' then Some ((m, Quit), g)
      else if k = ''ctrl+l'' then Some ((m, ClearScreen), g)
      else if k = ''ctrl+p'' then Some ((m\<lparr>paused := \<not> paused m\<rparr>, NoCmd), g)
      else if k = ''backspace'' then Some ((backspace m, NoCmd), g)
      else if isLetter k then Some ((matchWordA (m\<lparr>input := input m @ k\<rparr>), NoCmd), g)
      else Some ((m, NoCmd), g))"
| "UpdateA TickMsg m g =
     (if \<not> paused m \<and> \<not> gameOver m then
        (case maybeAddWordA (moveWords m) g of
           None \<Rightarrow> None
         | Some (m', g') \<Rightarrow> Some ((m', TickCmd), g'))
      else Some ((m, TickCmd), g))"
| "UpdateA (WindowSizeMsg w h) m g = Some ((m\<lparr>width := w, height := h\<rparr>, NoCmd), g)"
| "UpdateA OtherMsg m g = Some ((m, NoCmd), g)"

fun UpdateB :: "msg \<Rightarrow> modelB \<Rightarrow> rng \<Rightarrow> ((modelB \<times> cmd) \<times> rng) option" where
  "UpdateB (KeyMsg k) m g =
     (if gameOver m then
        (if k = ''q'' \<or> k = ''ctrl+c'' then Some ((m, Quit), g) else Some ((m, NoCmd), g))
      else if k = ''ctrl+c'' then Some ((m, Quit), g)
      else if k = ''ctrl+l'' then Some ((m, ClearScreen), g)
      else if k = '' '' then Some ((m\<lparr>paused := \<not> paused m\<rparr>, NoCmd), g)
      else if k = ''backspace'' then Some ((backspace m, NoCmd), g)
      else if isLetter k then
        (case matchWordB (m\<lparr>input := input m @ k\<rparr>) g of
           None \<Rightarrow> None
         | Some (m', g') \<Rightarrow> Some ((m', NoCmd), g'))
      else Some ((m, NoCmd), g))"
| "UpdateB TickMsg m g =
     (if \<not> paused m \<and> \<not> gameOver m then
        (case maybeAddWordB (updateEffects (moveWords m)) g of
           None \<Rightarrow> None
         | Some (m', g') \<Rightarrow> Some ((m', TickCmd), g'))
      else Some ((m, TickCmd), g))"
| "UpdateB (WindowSizeMsg w h) m g = Some ((m\<lparr>width := w, height := h\<rparr>, NoCmd), g)"
| "UpdateB OtherMsg m g = Some ((m, NoCmd), g)"

text \<open>Running a list of events from a state, as the event loop of the framework does.\<close>

fun runA :: "msg list \<Rightarrow> model \<Rightarrow> rng \<Rightarrow> (model \<times> rng) option" where
  "runA [] m g = Some (m, g)"
| "runA (e # es) m g =
     (case UpdateA e m g of None \<Rightarrow> None | Some ((m', c), g') \<Rightarrow> runA es m' g')"

fun runB :: "msg list \<Rightarrow> modelB \<Rightarrow> rng \<Rightarrow> (modelB \<times> rng) option" where
  "runB [] m g = Some (m, g)"
| "runB (e # es) m g =
     (case UpdateB e m g of None \<Rightarrow> None | Some ((m', c), g') \<Rightarrow> runB es m' g')"

subsection \<open>Loading the dictionary: \<^verbatim>\<open>loadDictionary\<close>\<close>

text \<open>
  The file is represented by what \<^verbatim>\<open>os.Open\<close> and the \<^verbatim>\<open>bufio.Scanner\<close> deliver: either
  the file cannot be opened, or the scanner yields a list of lines and then reports an
  optional error.
\<close>

datatype error = OpenError | ScanError

datatype resource = NoFile | File "string list" "error option"

text \<open>
  \<^verbatim>\<open>strings.TrimSpace\<close> and \<^verbatim>\<open>strings.ToLower\<close> are library functions that work on
  Unicode text, and their code is not part of the repository. What is fixed of them here
  is their result on a line of ASCII bytes: \<^verbatim>\<open>TrimSpace\<close> removes the leading and the
  trailing bytes among tab, line feed, vertical tab, form feed, carriage return and
  space, and \<^verbatim>\<open>ToLower\<close> maps the letters \<open>A\<close> to \<open>Z\<close> to \<open>a\<close> to \<open>z\<close>. On any other line they
  are whatever the library computes, and the statements about the loaders hold for it.
\<close>

definition isASCII :: "string \<Rightarrow> bool" where
  "isASCII s = list_all (\<lambda>c. (of_char c :: nat) < 128) s"

definition isSpace :: "char \<Rightarrow> bool" where
  "isSpace c = (c \<in> set [CHR 0x09, CHR 0x0A, CHR 0x0B, CHR 0x0C, CHR 0x0D, CHR '' ''])"

definition asciiTrimSpace :: "string \<Rightarrow> string" where
  "asciiTrimSpace s = rev (dropWhile isSpace (rev (dropWhile isSpace s)))"

definition toLowerChar :: "char \<Rightarrow> char" where
  "toLowerChar c =
     (if 65 \<le> (of_char c :: nat) \<and> (of_char c :: nat) \<le> 90 then char_of (of_char c + 32 :: nat) else c)"

definition asciiToLower :: "string \<Rightarrow> string" where
  "asciiToLower s = map toLowerChar s"

definition TrimSpace :: "string \<Rightarrow> string" where
  "TrimSpace = (SOME f. \<forall>s. isASCII s \<longrightarrow> f s = asciiTrimSpace s)"

definition ToLower :: "string \<Rightarrow> string" where
  "ToLower = (SOME f. \<forall>s. isASCII s \<longrightarrow> f s = asciiToLower s)"

fun loadLoopA :: "string list \<Rightarrow> string list \<Rightarrow> string list" where
  "loadLoopA [] ws = ws"
| "loadLoopA (l # ls) ws =
     (let word = TrimSpace l
      in if length word > 0 then loadLoopA ls (ws @ [ToLower word]) else loadLoopA ls ws)"

definition loadDictionaryA :: "resource \<Rightarrow> string list \<times> error option" where
  "loadDictionaryA r =
     (case r of NoFile \<Rightarrow> ([], Some OpenError) | File ls e \<Rightarrow> (loadLoopA ls [], e))"

fun loadLoopB :: "string list \<Rightarrow> string list \<Rightarrow> string list" where
  "loadLoopB [] ws = ws"
| "loadLoopB (l # ls) ws =
     (let word = TrimSpace l
      in if length word \<ge> 1 \<and> length word \<le> 12 then loadLoopB ls (ws @ [ToLower word])
         else loadLoopB ls ws)"

definition loadDictionaryB :: "resource \<Rightarrow> string list \<times> error option" where
  "loadDictionaryB r =
     (case r of NoFile \<Rightarrow> ([], Some OpenError) | File ls e \<Rightarrow> (loadLoopB ls [], e))"

subsection \<open>Notions used in the statements\<close>

text \<open>
  One step of descent on a single word, the test for having reached the bottom, the number
  of words of a list that reach the bottom in one step, and the word that a spawn appends
  for a given dictionary and random source.
\<close>

definition descend :: "word \<Rightarrow> word" where
  "descend w = w\<lparr>w_y := w_y w + 1\<rparr>"

definition landed :: "word \<Rightarrow> bool" where
  "landed w = (w_y w \<ge> gameHeight)"

definition nLanded :: "word list \<Rightarrow> nat" where
  "nLanded ws = length (filter landed (map descend ws))"

definition spawned :: "string list \<Rightarrow> rng \<Rightarrow> word" where
  "spawned d g =
     (let t = d ! nat (int (shd g) mod int (length d))
      in \<lparr>w_text = t,
          w_x = int (shd (stl g)) mod (max 0 (screenWidth - int (length t) - 1) + 1),
          w_y = 0, w_matched = 0\<rparr>)"

text \<open>
  Three sample words for the examples: one on the last row, one in mid-fall and one
  freshly spawned.
\<close>

definition dog20 :: word where "dog20 = \<lparr>w_text = ''dog'', w_x = 3, w_y = 20, w_matched = 0\<rparr>"

definition cat7 :: word where "cat7 = \<lparr>w_text = ''cat'', w_x = 5, w_y = 7, w_matched = 0\<rparr>"

definition cat0 :: word where "cat0 = \<lparr>w_text = ''cat'', w_x = 0, w_y = 0, w_matched = 0\<rparr>"

text \<open>The word \<open>a\<close> at column 0 and a given row, and a dictionary line of 81 letters.\<close>

definition aw :: "int \<Rightarrow> word" where
  "aw r = \<lparr>w_text = ''a'', w_x = 0, w_y = r, w_matched = 0\<rparr>"

definition wide :: string where
  "wide = ''aaaaaaaaaaaaaaaaaaaaaaaaaaaaaaaaaaaaaaaaaaaaaaaaaaaaaaaaaaaaaaaaaaaaaaaaaaaaaaaaa''"

text \<open>A dictionary file with padded, blank, long and upper-case lines.\<close>

definition sampleLines :: "string list" where
  "sampleLines = [''  Cat '', [], ''hello'', ''DOG'', ''   '', ''incomprehensible'']"

text \<open>
  The three outcomes of a letter keystroke: the word at index \<open>i\<close> becomes the current word
  (its matched length is set), the word at index \<open>i\<close> is completed (variant A; variant B
  also appends an effect), or nothing matches.
\<close>

definition trackAt :: "nat \<Rightarrow> 'a model_scheme \<Rightarrow> 'a model_scheme" where
  "trackAt i m =
     m\<lparr>current := Some i,
       words := (words m)[i := (words m ! i)\<lparr>w_matched := int (length (input m))\<rparr>]\<rparr>"

definition hitAt :: "nat \<Rightarrow> 'a model_scheme \<Rightarrow> 'a model_scheme" where
  "hitAt i m =
     m\<lparr>score := score m + int (length (w_text (words m ! i))) * (level m + 1),
       wordsTyped := wordsTyped m + 1,
       words := take i (words m) @ drop (Suc i) (words m),
       input := [],
       current := None,
       level := (if (wordsTyped m + 1) mod 15 = 0 then level m + 1 else level m)\<rparr>"

definition miss :: "'a model_scheme \<Rightarrow> 'a model_scheme" where
  "miss m = m\<lparr>input := [], current := None\<rparr>"

text \<open>
  The angle that iteration \<open>i\<close> of the explosion loop computes for \<open>n\<close> particles, the
  speed it computes from the draw \<open>u\<close>, the particle it appends, given the random source
  at the start of that iteration, and the effect that the whole loop builds.
\<close>

definition direction :: "nat \<Rightarrow> int \<Rightarrow> real" where
  "direction i n = fdiv (fmul (fmul (float64 (int i)) 2.0) (round64 3.14159)) (float64 n)"

definition speedOf :: "real \<Rightarrow> real" where
  "speedOf u = fadd 0.5 (fmul u 1.5)"

definition mkParticle :: "nat \<Rightarrow> int \<Rightarrow> int \<Rightarrow> int \<Rightarrow> int \<Rightarrow> rng \<Rightarrow> particle" where
  "mkParticle i n ex ey wordLen g =
     \<lparr>p_x = fadd (float64 ex) (float64 (int i smod wordLen)),
      p_y = float64 ey,
      p_vx = fmul (speedOf (fst (Float64 g))) (Cos64 (direction i n)),
      p_vy = fmul (speedOf (fst (Float64 g))) (Sin64 (direction i n)),
      p_char = chars ! nat (int (shd (stl g)) mod 8),
      p_lifetime = 3 + int (shd (stl (stl g))) mod 3\<rparr>"

definition explosion :: "int \<Rightarrow> int \<Rightarrow> int \<Rightarrow> rng \<Rightarrow> effect" where
  "explosion ex ey wordLen g =
     \<lparr>particles = map (\<lambda>k. mkParticle k (8 + wordLen * 2) ex ey wordLen (sdrop (3 * k) g))
                        [0..<nat (8 + wordLen * 2)]\<rparr>"

definition hitAtB :: "nat \<Rightarrow> modelB \<Rightarrow> rng \<Rightarrow> modelB" where
  "hitAtB i m g =
     (hitAt i m)\<lparr>effects := effects m @
        [explosion (w_x (words m ! i)) (w_y (words m ! i)) (int (length (w_text (words m ! i)))) g]\<rparr>"

text \<open>What identifies a falling word on the grid: its text, column and row.\<close>

definition place :: "word \<Rightarrow> string \<times> int \<times> int" where
  "place w = (w_text w, w_x w, w_y w)"



text \<open>
  The states the program can be in: the initial state for a non-empty dictionary (\<^verbatim>\<open>main\<close>
  exits on an empty one) and every state an event leads to, whatever the random source
  holds. \<open>playable\<close> is the invariant of these states that the claims about lives need:
  no two words share a row, every row is on the grid, lives is not negative and the
  game is over exactly when lives is 0.
\<close>

inductive reachableA :: "model \<Rightarrow> bool" where
  initA: "d \<noteq> [] \<Longrightarrow> reachableA (initialModelA d now)"
| stepA: "reachableA m \<Longrightarrow> UpdateA e m g = Some ((m', c), g') \<Longrightarrow> reachableA m'"

inductive reachableB :: "modelB \<Rightarrow> bool" where
  initB: "d \<noteq> [] \<Longrightarrow> reachableB (initialModelB d now)"
| stepB: "reachableB m \<Longrightarrow> UpdateB e m g = Some ((m', c), g') \<Longrightarrow> reachableB m'"

definition playable :: "'a model_scheme \<Rightarrow> bool" where
  "playable m =
     (distinct (map w_y (words m)) \<and>
      (\<forall>v\<in>set (map w_y (words m)). 0 \<le> v \<and> v < gameHeight) \<and>
      0 \<le> lives m \<and> (gameOver m \<longleftrightarrow> lives m = 0))"

section \<open>Properties of the arithmetic\<close>

subsection \<open>Rounding to the nearest integer\<close>

lemma round_even_int [simp]: "round_even (of_int k) = k"
  by (simp add: round_even_def)

lemma round_even_lo: "\<lfloor>r\<rfloor> \<le> round_even r"
  by (simp add: round_even_def Let_def)

lemma round_even_hi: "round_even r \<le> \<lfloor>r\<rfloor> + 1"
  by (simp add: round_even_def Let_def)

lemma round_even_mono: "a \<le> b \<Longrightarrow> round_even a \<le> round_even b"
proof -
  assume ab: "a \<le> b"
  have fl: "\<lfloor>a\<rfloor> \<le> \<lfloor>b\<rfloor>" using ab by (rule floor_mono)
  show ?thesis
  proof (cases "\<lfloor>a\<rfloor> = \<lfloor>b\<rfloor>")
    case True
    then show ?thesis using ab by (auto simp: round_even_def Let_def)
  next
    case False
    with fl have "\<lfloor>a\<rfloor> + 1 \<le> \<lfloor>b\<rfloor>" by simp
    then show ?thesis using round_even_lo[of b] round_even_hi[of a] by linarith
  qed
qed

lemma round_even_ge: "of_int m \<le> r \<Longrightarrow> m \<le> round_even r"
  using round_even_mono[of "of_int m" r] by simp

lemma round_even_le: "r \<le> of_int m \<Longrightarrow> round_even r \<le> m"
  using round_even_mono[of r "of_int m"] by simp


subsection \<open>The binade of a number and the rounding within it\<close>

lemma powr_powi: "(2::real) powr (of_int e) = 2 powi e"
  by (simp add: powr_real_of_int')

lemma binade_bounds:
  assumes "x \<noteq> 0"
  shows "2 powi \<lfloor>log 2 \<bar>x\<bar>\<rfloor> \<le> \<bar>x\<bar>" "\<bar>x\<bar> < 2 powi (\<lfloor>log 2 \<bar>x\<bar>\<rfloor> + 1)"
proof -
  have pos: "0 < \<bar>x\<bar>" using assms by simp
  have "of_int \<lfloor>log 2 \<bar>x\<bar>\<rfloor> \<le> log 2 \<bar>x\<bar>" by simp
  then have "2 powr (of_int \<lfloor>log 2 \<bar>x\<bar>\<rfloor>) \<le> 2 powr (log 2 \<bar>x\<bar>)" by simp
  then show "2 powi \<lfloor>log 2 \<bar>x\<bar>\<rfloor> \<le> \<bar>x\<bar>" using pos by (simp add: powr_powi)
  have "log 2 \<bar>x\<bar> < of_int (\<lfloor>log 2 \<bar>x\<bar>\<rfloor> + 1)" by linarith
  then have "2 powr (log 2 \<bar>x\<bar>) < 2 powr (of_int (\<lfloor>log 2 \<bar>x\<bar>\<rfloor> + 1))"
    by simp
  then show "\<bar>x\<bar> < 2 powi (\<lfloor>log 2 \<bar>x\<bar>\<rfloor> + 1)" using pos by (simp only: powr_powi) simp
qed

lemma binade_unique:
  assumes "2 powi e \<le> \<bar>x\<bar>" "\<bar>x\<bar> < 2 powi (e + 1)"
  shows "\<lfloor>log 2 \<bar>x\<bar>\<rfloor> = e"
proof -
  have "(0::real) < 2 powi e" by (simp add: zero_less_power_int)
  then have pos: "0 < \<bar>x\<bar>" using assms(1) by linarith
  have "2 powr (of_int e) \<le> \<bar>x\<bar>" using assms(1) by (simp only: powr_powi)
  then have 1: "of_int e \<le> log 2 \<bar>x\<bar>" using pos by (simp add: le_log_iff)
  have "\<bar>x\<bar> < 2 powr (of_int (e + 1))" using assms(2) by (simp only: powr_powi)
  then have 2: "log 2 \<bar>x\<bar> < of_int (e + 1)" using pos by (simp add: log_less_iff)
  from 1 2 show ?thesis by linarith
qed

text \<open>How \<open>round64\<close> is computed once the binade of its argument is known.\<close>

lemma round64_binade:
  assumes "2 powi e \<le> \<bar>x\<bar>" "\<bar>x\<bar> < 2 powi (e + 1)"
  shows "round64 x = 2 powi (e - 52) * of_int (round_even (x / 2 powi (e - 52)))"
proof -
  have "(0::real) < 2 powi e" by (simp add: zero_less_power_int)
  then have "0 < \<bar>x\<bar>" using assms(1) by linarith
  then have "x \<noteq> 0" by simp
  then show ?thesis using binade_unique[OF assms] by (simp add: round64_def Let_def)
qed

lemma round64_zero [simp]: "round64 0 = 0"
  by (simp add: round64_def)

lemma scaled_bounds:
  assumes "x \<noteq> 0"
  shows "2 ^ 52 \<le> \<bar>x\<bar> / 2 powi (\<lfloor>log 2 \<bar>x\<bar>\<rfloor> - 52)"
    "\<bar>x\<bar> / 2 powi (\<lfloor>log 2 \<bar>x\<bar>\<rfloor> - 52) < 2 ^ 53"
proof -
  let ?e = "\<lfloor>log 2 \<bar>x\<bar>\<rfloor>"
  have u: "(0::real) < 2 powi (?e - 52)" by (simp add: zero_less_power_int)
  have a: "(2::real) powi ?e = 2 ^ 52 * 2 powi (?e - 52)"
    by (simp add: power_int_diff)
  have b: "(2::real) powi (?e + 1) = 2 ^ 53 * 2 powi (?e - 52)"
    by (simp add: power_int_diff power_int_add)
  show "2 ^ 52 \<le> \<bar>x\<bar> / 2 powi (?e - 52)"
    using binade_bounds(1)[OF assms] u unfolding a by (simp add: pos_le_divide_eq)
  show "\<bar>x\<bar> / 2 powi (?e - 52) < 2 ^ 53"
    using binade_bounds(2)[OF assms] u unfolding b by (simp add: pos_divide_less_eq)
qed

lemma round64_pos_bounds:
  assumes "0 < x"
  shows "2 powi \<lfloor>log 2 x\<rfloor> \<le> round64 x" "round64 x \<le> 2 powi (\<lfloor>log 2 x\<rfloor> + 1)"
proof -
  let ?e = "\<lfloor>log 2 x\<rfloor>"
  let ?u = "(2::real) powi (?e - 52)"
  have nz: "x \<noteq> 0" and ax: "\<bar>x\<bar> = x" using assms by simp_all
  have u: "0 < ?u" by (simp add: zero_less_power_int)
  have r: "round64 x = ?u * of_int (round_even (x / ?u))"
    using nz by (simp add: round64_def Let_def ax)
  have lo: "(2::int) ^ 52 \<le> round_even (x / ?u)"
    using scaled_bounds(1)[OF nz] by (intro round_even_ge) (simp add: ax)
  have hi: "round_even (x / ?u) \<le> (2::int) ^ 53"
    using scaled_bounds(2)[OF nz] by (intro round_even_le) (simp add: ax)
  have a: "(2::real) powi ?e = ?u * of_int (2 ^ 52)"
    by (simp add: power_int_diff)
  have b: "(2::real) powi (?e + 1) = ?u * of_int (2 ^ 53)"
    by (simp add: power_int_diff power_int_add)
  show "2 powi ?e \<le> round64 x"
    unfolding r a using lo u by (intro mult_left_mono) (simp_all only: of_int_le_iff less_imp_le)
  show "round64 x \<le> 2 powi (?e + 1)"
    unfolding r b using hi u by (intro mult_left_mono) (simp_all only: of_int_le_iff less_imp_le)
qed

lemma round64_neg_bounds:
  assumes "x < 0"
  shows "- (2 powi (\<lfloor>log 2 (- x)\<rfloor> + 1)) \<le> round64 x" "round64 x \<le> - (2 powi \<lfloor>log 2 (- x)\<rfloor>)"
proof -
  let ?e = "\<lfloor>log 2 (- x)\<rfloor>"
  let ?u = "(2::real) powi (?e - 52)"
  have nz: "x \<noteq> 0" and ax: "\<bar>x\<bar> = - x" using assms by simp_all
  have u: "0 < ?u" by (simp add: zero_less_power_int)
  have r: "round64 x = ?u * of_int (round_even (x / ?u))"
    using nz by (simp add: round64_def Let_def ax)
  have "- x / ?u < 2 ^ 53" using scaled_bounds(2)[OF nz] by (simp add: ax)
  then have "of_int (- (2 ^ 53)) \<le> x / ?u" by simp
  then have lo: "- ((2::int) ^ 53) \<le> round_even (x / ?u)" by (rule round_even_ge)
  have "2 ^ 52 \<le> - x / ?u" using scaled_bounds(1)[OF nz] by (simp add: ax)
  then have "x / ?u \<le> of_int (- (2 ^ 52))" by simp
  then have hi: "round_even (x / ?u) \<le> - ((2::int) ^ 52)" by (rule round_even_le)
  have a: "- ((2::real) powi ?e) = ?u * of_int (- (2 ^ 52))"
    by (simp add: power_int_diff)
  have b: "- ((2::real) powi (?e + 1)) = ?u * of_int (- (2 ^ 53))"
    by (simp add: power_int_diff power_int_add)
  show "- (2 powi (?e + 1)) \<le> round64 x"
    unfolding r b using lo u by (intro mult_left_mono) (simp_all only: of_int_le_iff less_imp_le)
  show "round64 x \<le> - (2 powi ?e)"
    unfolding r a using hi u by (intro mult_left_mono) (simp_all only: of_int_le_iff less_imp_le)
qed

lemma round64_pos: "0 < x \<Longrightarrow> 0 < round64 x"
  using round64_pos_bounds(1)[of x] zero_less_power_int[of "2::real" "\<lfloor>log 2 x\<rfloor>"] by linarith

lemma round64_neg: "x < 0 \<Longrightarrow> round64 x < 0"
  using round64_neg_bounds(2)[of x] zero_less_power_int[of "2::real" "\<lfloor>log 2 (- x)\<rfloor>"] by linarith

subsection \<open>Rounding is monotone\<close>

lemma round64_mono_pos:
  assumes "0 < x" "x \<le> y"
  shows "round64 x \<le> round64 y"
proof -
  have y: "0 < y" using assms by simp
  have le: "\<lfloor>log 2 x\<rfloor> \<le> \<lfloor>log 2 y\<rfloor>"
    using assms y by (intro floor_mono) simp
  show ?thesis
  proof (cases "\<lfloor>log 2 x\<rfloor> = \<lfloor>log 2 y\<rfloor>")
    case True
    let ?u = "(2::real) powi (\<lfloor>log 2 y\<rfloor> - 52)"
    have u: "0 < ?u" by (simp add: zero_less_power_int)
    have "x / ?u \<le> y / ?u" using assms(2) u by (simp add: divide_right_mono)
    then have "round_even (x / ?u) \<le> round_even (y / ?u)" by (rule round_even_mono)
    then have "?u * of_int (round_even (x / ?u)) \<le> ?u * of_int (round_even (y / ?u))"
      using u by (intro mult_left_mono) (simp_all only: of_int_le_iff less_imp_le)
    then show ?thesis using assms(1) y True by (simp add: round64_def Let_def)
  next
    case False
    with le have "\<lfloor>log 2 x\<rfloor> + 1 \<le> \<lfloor>log 2 y\<rfloor>" by simp
    then have "(2::real) powi (\<lfloor>log 2 x\<rfloor> + 1) \<le> 2 powi \<lfloor>log 2 y\<rfloor>"
      by (intro power_int_increasing) simp_all
    then show ?thesis
      using round64_pos_bounds(2)[OF assms(1)] round64_pos_bounds(1)[OF y] by linarith
  qed
qed

lemma round64_mono_neg:
  assumes "y < 0" "x \<le> y"
  shows "round64 x \<le> round64 y"
proof -
  have x: "x < 0" using assms by simp
  have le: "\<lfloor>log 2 (- y)\<rfloor> \<le> \<lfloor>log 2 (- x)\<rfloor>"
    using assms x by (intro floor_mono) simp
  show ?thesis
  proof (cases "\<lfloor>log 2 (- y)\<rfloor> = \<lfloor>log 2 (- x)\<rfloor>")
    case True
    let ?u = "(2::real) powi (\<lfloor>log 2 (- x)\<rfloor> - 52)"
    have u: "0 < ?u" by (simp add: zero_less_power_int)
    have "x / ?u \<le> y / ?u" using assms(2) u by (simp add: divide_right_mono)
    then have "round_even (x / ?u) \<le> round_even (y / ?u)" by (rule round_even_mono)
    then have "?u * of_int (round_even (x / ?u)) \<le> ?u * of_int (round_even (y / ?u))"
      using u by (intro mult_left_mono) (simp_all only: of_int_le_iff less_imp_le)
    then show ?thesis using assms(1) x True by (simp add: round64_def Let_def)
  next
    case False
    with le have "\<lfloor>log 2 (- y)\<rfloor> + 1 \<le> \<lfloor>log 2 (- x)\<rfloor>" by simp
    then have "(2::real) powi (\<lfloor>log 2 (- y)\<rfloor> + 1) \<le> 2 powi \<lfloor>log 2 (- x)\<rfloor>"
      by (intro power_int_increasing) simp_all
    then show ?thesis
      using round64_neg_bounds(2)[OF x] round64_neg_bounds(1)[OF assms(1)] by linarith
  qed
qed

lemma round64_mono: "x \<le> y \<Longrightarrow> round64 x \<le> round64 y"
proof -
  assume xy: "x \<le> y"
  consider "0 < x" | "y < 0" | "x \<le> 0" "0 \<le> y" by linarith
  then show ?thesis
  proof cases
    case 1 then show ?thesis using xy by (rule round64_mono_pos)
  next
    case 2 then show ?thesis using xy by (rule round64_mono_neg)
  next
    case 3
    have a: "round64 x \<le> 0"
      using round64_neg[of x] 3(1) by (cases "x = 0") auto
    have b: "0 \<le> round64 y"
      using round64_pos[of y] 3(2) by (cases "y = 0") auto
    from a b show ?thesis by linarith
  qed
qed

lemma round64_nonneg: "0 \<le> x \<Longrightarrow> 0 \<le> round64 x"
  using round64_mono[of 0 x] by simp




subsection \<open>The rounding error below 2\<close>


subsection \<open>The chance of a spawn as a function of the level\<close>



lemma spawnChanceA_pos: "0 \<le> l \<Longrightarrow> 0 < spawnChanceA l"
proof -
  assume l: "0 \<le> l"
  have a: "0 < round64 0.15" by (rule round64_pos) simp
  have f: "0 \<le> float64 l" unfolding float64_def using l by (intro round64_nonneg) simp
  have c: "0 \<le> round64 0.02" by (rule round64_nonneg) simp
  have "0 \<le> float64 l * round64 0.02" using f c by (rule mult_nonneg_nonneg)
  then have "0 \<le> fmul (float64 l) (round64 0.02)"
    unfolding fmul_def by (rule round64_nonneg)
  then show ?thesis unfolding spawnChanceA_def fadd_def using a by (intro round64_pos) linarith
qed

lemma spawnChanceB_pos: "0 \<le> l \<Longrightarrow> 0 < spawnChanceB l"
proof -
  assume l: "0 \<le> l"
  have a: "0 < round64 0.08" by (rule round64_pos) simp
  have f: "0 \<le> float64 l" unfolding float64_def using l by (intro round64_nonneg) simp
  have c: "0 \<le> round64 0.01" by (rule round64_nonneg) simp
  have "0 \<le> float64 l * round64 0.01" using f c by (rule mult_nonneg_nonneg)
  then have "0 \<le> fmul (float64 l) (round64 0.01)"
    unfolding fmul_def by (rule round64_nonneg)
  then show ?thesis unfolding spawnChanceB_def fadd_def using a by (intro round64_pos) linarith
qed

text \<open>
  The values at levels 1 and 4. \<open>0.15\<close> and \<open>0.02\<close> are no \<^verbatim>\<open>float64\<close>, and at level 4 the
  sum lies halfway between two of them: the chance in variant A is a little below
  \<open>0.23\<close>, and in variant B a little below \<open>0.12\<close>.
\<close>

lemma spawnChanceA_1: "spawnChanceA 1 = 3062447746611937 / 2 ^ 54"
proof -
  have a: "round64 0.15 = 5404319552844595 / 2 ^ 55"
    by (subst round64_binade[where e = "- 3"]) (simp_all add: round_even_def)
  have b: "round64 0.02 = 5764607523034235 / 2 ^ 58"
    by (subst round64_binade[where e = "- 6"]) (simp_all add: round_even_def)
  have c: "round64 (real_of_int 1) = 1"
    by (subst round64_binade[where e = 0]) (simp_all add: round_even_def)
  have d: "round64 (1 * (5764607523034235 / 2 ^ 58)) = 5764607523034235 / 2 ^ 58"
    by (subst round64_binade[where e = "- 6"]) (simp_all add: round_even_def)
  have e: "round64 (5404319552844595 / 2 ^ 55 + 5764607523034235 / 2 ^ 58) = 3062447746611937 / 2 ^ 54"
    by (subst round64_binade[where e = "- 3"]) (simp_all add: round_even_def)
  show ?thesis unfolding spawnChanceA_def float64_def fadd_def fmul_def a b c d e ..
qed


lemma spawnChanceB_1: "spawnChanceB 1 = 3242591731706757 / 2 ^ 55"
proof -
  have a: "round64 0.08 = 5764607523034235 / 2 ^ 56"
    by (subst round64_binade[where e = "- 4"]) (simp_all add: round_even_def)
  have b: "round64 0.01 = 5764607523034235 / 2 ^ 59"
    by (subst round64_binade[where e = "- 7"]) (simp_all add: round_even_def)
  have c: "round64 (real_of_int 1) = 1"
    by (subst round64_binade[where e = 0]) (simp_all add: round_even_def)
  have d: "round64 (1 * (5764607523034235 / 2 ^ 59)) = 5764607523034235 / 2 ^ 59"
    by (subst round64_binade[where e = "- 7"]) (simp_all add: round_even_def)
  have e: "round64 (5764607523034235 / 2 ^ 56 + 5764607523034235 / 2 ^ 59) = 3242591731706757 / 2 ^ 55"
    by (subst round64_binade[where e = "- 4"]) (simp_all add: round_even_def)
  show ?thesis unfolding spawnChanceB_def float64_def fadd_def fmul_def a b c d e ..
qed


subsection \<open>The speed of a particle\<close>




subsection \<open>The library functions\<close>


lemma TrimSpace_ascii: "isASCII s \<Longrightarrow> TrimSpace s = asciiTrimSpace s"
proof -
  have "\<exists>f. \<forall>s. isASCII s \<longrightarrow> f s = asciiTrimSpace s"
    by (rule exI[of _ asciiTrimSpace]) simp
  then have "\<forall>s. isASCII s \<longrightarrow> TrimSpace s = asciiTrimSpace s"
    unfolding TrimSpace_def by (rule someI_ex)
  then show "isASCII s \<Longrightarrow> TrimSpace s = asciiTrimSpace s" by simp
qed

lemma ToLower_ascii: "isASCII s \<Longrightarrow> ToLower s = asciiToLower s"
proof -
  have "\<exists>f. \<forall>s. isASCII s \<longrightarrow> f s = asciiToLower s"
    by (rule exI[of _ asciiToLower]) simp
  then have "\<forall>s. isASCII s \<longrightarrow> ToLower s = asciiToLower s"
    unfolding ToLower_def by (rule someI_ex)
  then show "isASCII s \<Longrightarrow> ToLower s = asciiToLower s" by simp
qed

section \<open>Properties of the loops\<close>

subsection \<open>Descent as a map and a filter\<close>

lemma model_upd3_cong:
  "a = a' \<Longrightarrow> b = b' \<Longrightarrow> c = c' \<Longrightarrow>
   m\<lparr>words := a, lives := b, gameOver := c\<rparr> = m\<lparr>words := a', lives := b', gameOver := c'\<rparr>"
  by simp

lemma nLanded_snoc:
  "nLanded (ws @ [w]) = nLanded ws + (if landed (descend w) then 1 else 0)"
  by (simp add: nLanded_def)

lemma moveWordsLoop_char:
  "n \<le> length (words m) \<Longrightarrow>
   moveWordsLoop n m =
     m\<lparr>words := filter (\<lambda>w. \<not> landed w) (map descend (take n (words m))) @ drop n (words m),
       lives := lives m - int (nLanded (take n (words m))),
       gameOver := (gameOver m \<or> (nLanded (take n (words m)) > 0 \<and> lives m - int (nLanded (take n (words m))) \<le> 0))\<rparr>"
proof (induction n arbitrary: m)
  case 0
  then show ?case by (simp add: nLanded_def)
next
  case (Suc n)
  let ?ws = "words m"
  let ?d = "descend (?ws ! n)"
  from Suc.prems have n: "n < length ?ws" by simp
  have tk: "take (Suc n) ?ws = take n ?ws @ [?ws ! n]"
    using n by (simp add: take_Suc_conv_app_nth)
  show ?case
  proof (cases "landed ?d")
    case True
    define m' where "m' = (let m3 = m\<lparr>words := take n ?ws @ drop (Suc n) ?ws, lives := lives m - 1\<rparr>
                           in if lives m3 \<le> 0 then m3\<lparr>gameOver := True\<rparr> else m3)"
    have step: "moveWordsLoop (Suc n) m = moveWordsLoop n m'"
      using True n by (simp add: Let_def landed_def descend_def m'_def)
    have len: "n \<le> length (words m')" using n by (simp add: m'_def Let_def)
    have w': "words m' = take n ?ws @ drop (Suc n) ?ws" by (simp add: m'_def Let_def)
    have l': "lives m' = lives m - 1" by (simp add: m'_def Let_def)
    have g': "gameOver m' = (gameOver m \<or> lives m - 1 \<le> 0)" by (simp add: m'_def Let_def)
    have tk': "take n (words m') = take n ?ws" using n by (simp add: w')
    have dr': "drop n (words m') = drop (Suc n) ?ws" using n by (simp add: w')
    have base: "m' = m\<lparr>words := words m', lives := lives m', gameOver := gameOver m'\<rparr>"
      by (simp add: m'_def Let_def)
    have "moveWordsLoop n m' =
       m\<lparr>words := filter (\<lambda>w. \<not> landed w) (map descend (take n ?ws)) @ drop (Suc n) ?ws,
         lives := lives m - 1 - int (nLanded (take n ?ws)),
         gameOver := ((gameOver m \<or> lives m - 1 \<le> 0) \<or> (nLanded (take n ?ws) > 0 \<and> lives m - 1 - int (nLanded (take n ?ws)) \<le> 0))\<rparr>"
      apply (subst Suc.IH[OF len])
      apply (simp only: tk' dr' l' g')
      apply (simp add: m'_def Let_def)
      done
    also have "\<dots> = m\<lparr>words := filter (\<lambda>w. \<not> landed w) (map descend (take (Suc n) ?ws)) @ drop (Suc n) ?ws,
       lives := lives m - int (nLanded (take (Suc n) ?ws)),
       gameOver := (gameOver m \<or> (nLanded (take (Suc n) ?ws) > 0 \<and> lives m - int (nLanded (take (Suc n) ?ws)) \<le> 0))\<rparr>"
      apply (rule model_upd3_cong)
      using True by (auto simp: tk nLanded_snoc)
    finally show ?thesis using step by simp
  next
    case False
    define m' where "m' = m\<lparr>words := ?ws[n := ?d]\<rparr>"
    have step: "moveWordsLoop (Suc n) m = moveWordsLoop n m'"
      using False n by (simp add: Let_def landed_def descend_def m'_def)
    have len: "n \<le> length (words m')" using n by (simp add: m'_def)
    have tk': "take n (words m') = take n ?ws" using n by (simp add: m'_def)
    have dr': "drop n (words m') = ?d # drop (Suc n) ?ws"
      using n by (simp add: m'_def drop_update_cancel upd_conv_take_nth_drop)
    have "moveWordsLoop n m' =
       m\<lparr>words := filter (\<lambda>w. \<not> landed w) (map descend (take n ?ws)) @ ?d # drop (Suc n) ?ws,
         lives := lives m - int (nLanded (take n ?ws)),
         gameOver := (gameOver m \<or> (nLanded (take n ?ws) > 0 \<and> lives m - int (nLanded (take n ?ws)) \<le> 0))\<rparr>"
      apply (subst Suc.IH[OF len])
      apply (simp only: tk' dr')
      apply (simp add: m'_def)
      done
    also have "\<dots> = m\<lparr>words := filter (\<lambda>w. \<not> landed w) (map descend (take (Suc n) ?ws)) @ drop (Suc n) ?ws,
       lives := lives m - int (nLanded (take (Suc n) ?ws)),
       gameOver := (gameOver m \<or> (nLanded (take (Suc n) ?ws) > 0 \<and> lives m - int (nLanded (take (Suc n) ?ws)) \<le> 0))\<rparr>"
      apply (rule model_upd3_cong)
      using False by (auto simp: tk nLanded_snoc)
    finally show ?thesis using step by simp
  qed
qed

lemma moveWords_char:
  "moveWords m =
     m\<lparr>words := filter (\<lambda>w. \<not> landed w) (map descend (words m)),
       lives := lives m - int (nLanded (words m)),
       gameOver := (gameOver m \<or> (nLanded (words m) > 0 \<and> lives m - int (nLanded (words m)) \<le> 0))\<rparr>"
  unfolding moveWords_def by (subst moveWordsLoop_char) simp_all

subsection \<open>Effect decay and spawning touch nothing else\<close>

lemma updateEffectsLoop_frame: "\<exists>es. updateEffectsLoop n m = m\<lparr>effects := es\<rparr>"
proof (induction n arbitrary: m)
  case 0
  have "updateEffectsLoop 0 m = m\<lparr>effects := effects m\<rparr>" by simp
  then show ?case by blast
next
  case (Suc n)
  define es1 where
    "es1 = (effects m)[n := (effects m ! n)
              \<lparr>particles := updateParticlesLoop (length (particles (effects m ! n)))
                              (particles (effects m ! n))\<rparr>]"
  define es2 where
    "es2 = (if length (particles (es1 ! n)) = 0 then take n es1 @ drop (Suc n) es1 else es1)"
  have "updateEffectsLoop (Suc n) m = updateEffectsLoop n (m\<lparr>effects := es2\<rparr>)"
    by (simp add: Let_def es1_def es2_def)
  moreover obtain es where
    "updateEffectsLoop n (m\<lparr>effects := es2\<rparr>) = (m\<lparr>effects := es2\<rparr>)\<lparr>effects := es\<rparr>"
    using Suc.IH by blast
  ultimately have "updateEffectsLoop (Suc n) m = m\<lparr>effects := es\<rparr>" by simp
  then show ?case by blast
qed

lemma updateEffects_frame: "\<exists>es. updateEffects m = m\<lparr>effects := es\<rparr>"
  unfolding updateEffects_def by (rule updateEffectsLoop_frame)

lemma Intn_Some:
  "0 < n \<Longrightarrow> \<exists>k. Intn n g = Some (k, stl g) \<and> 0 \<le> k \<and> k < n"
  by (simp add: Intn_def)

lemma addWord_char:
  "dict m \<noteq> [] \<Longrightarrow>
   addWord m g = Some (m\<lparr>words := words m @ [spawned (dict m) g]\<rparr>, stl (stl g))"
  by (simp add: addWord_def Intn_def Let_def spawned_def max_def)

lemma spawned_props:
  assumes "d \<noteq> []"
  shows "w_text (spawned d g) \<in> set d" "w_y (spawned d g) = 0" "w_matched (spawned d g) = 0"
        "0 \<le> w_x (spawned d g)"
        "w_x (spawned d g) \<le> max 0 (screenWidth - int (length (w_text (spawned d g))) - 1)"
proof -
  have "nat (int (shd g) mod int (length d)) < length d"
    using assms by (simp add: nat_less_iff)
  then show "w_text (spawned d g) \<in> set d" by (simp add: spawned_def Let_def)
  show "w_y (spawned d g) = 0" "w_matched (spawned d g) = 0" by (simp_all add: spawned_def Let_def)
  show "0 \<le> w_x (spawned d g)" by (simp add: spawned_def Let_def)
  have "\<And>a b::int. 0 \<le> b \<Longrightarrow> a mod (b + 1) \<le> b"
    by (smt (verit) pos_mod_bound)
  then show "w_x (spawned d g) \<le> max 0 (screenWidth - int (length (w_text (spawned d g))) - 1)"
    unfolding spawned_def Let_def by simp
qed

lemma keep_descend:
  "filter (\<lambda>w. \<not> landed w) (map descend ws) =
   filter (\<lambda>w. w_y w < gameHeight) (map (\<lambda>w. w\<lparr>w_y := w_y w + 1\<rparr>) ws)"
  by (induction ws) (auto simp: landed_def descend_def)

lemma nLanded_eq: "nLanded ws = length (filter (\<lambda>w. w_y w + 1 \<ge> gameHeight) ws)"
  by (induction ws) (auto simp: nLanded_def landed_def descend_def)

lemma maybeAddWordA_cases:
  assumes "dict m \<noteq> []"
  shows "maybeAddWordA m g = Some (m, g) \<or> maybeAddWordA m g = Some (m, stl g) \<or>
         maybeAddWordA m g = Some (m\<lparr>words := words m @ [spawned (dict m) (stl g)]\<rparr>, stl (stl (stl g)))"
  using assms by (simp add: maybeAddWordA_def Float64_def addWord_char Let_def)

lemma maybeAddWordB_cases:
  assumes "dict m \<noteq> []"
  shows "maybeAddWordB m g = Some (m, g) \<or> maybeAddWordB m g = Some (m, stl g) \<or>
         maybeAddWordB m g = Some (m\<lparr>words := words m @ [spawned (dict m) g]\<rparr>, stl (stl g)) \<or>
         maybeAddWordB m g = Some (m\<lparr>words := words m @ [spawned (dict m) (stl g)]\<rparr>, stl (stl (stl g)))"
  using assms by (simp add: maybeAddWordB_def Float64_def addWord_char Let_def)

lemma maybeAdd_shape:
  assumes "r = Some (m, g0) \<or> r = Some (m, g1) \<or>
           r = Some (m\<lparr>words := words m @ [spawned d g2]\<rparr>, g3) \<or>
           r = Some (m\<lparr>words := words m @ [spawned d g4]\<rparr>, g5)"
    and "d \<noteq> []"
  shows "\<exists>m' g' new. r = Some (m', g') \<and> words m' = words m @ new \<and> length new \<le> 1 \<and>
           (\<forall>w\<in>set new. w_y w = 0) \<and> lives m' = lives m"
proof -
  have n: "w_y (spawned d g2) = 0" "w_y (spawned d g4) = 0"
    using assms(2) by (simp_all add: spawned_props)
  from assms(1) consider "r = Some (m, g0)" | "r = Some (m, g1)"
    | "r = Some (m\<lparr>words := words m @ [spawned d g2]\<rparr>, g3)"
    | "r = Some (m\<lparr>words := words m @ [spawned d g4]\<rparr>, g5)" by blast
  then show ?thesis
  proof cases
    case 1
    then show ?thesis by (intro exI[of _ m] exI[of _ g0] exI[of _ "[]"]) simp
  next
    case 2
    then show ?thesis by (intro exI[of _ m] exI[of _ g1] exI[of _ "[]"]) simp
  next
    case 3
    then show ?thesis using n
      by (intro exI[of _ "m\<lparr>words := words m @ [spawned d g2]\<rparr>"] exI[of _ g3] exI[of _ "[spawned d g2]"]) simp
  next
    case 4
    then show ?thesis using n
      by (intro exI[of _ "m\<lparr>words := words m @ [spawned d g4]\<rparr>"] exI[of _ g5] exI[of _ "[spawned d g4]"]) simp
  qed
qed

lemma tickA_descent:
  assumes "\<not> paused a" "\<not> gameOver a" "dict a \<noteq> []"
  shows "\<exists>m' g' new. UpdateA TickMsg a g = Some ((m', TickCmd), g') \<and>
           words m' = filter (\<lambda>w. w_y w < gameHeight) (map (\<lambda>w. w\<lparr>w_y := w_y w + 1\<rparr>) (words a)) @ new \<and>
           length new \<le> 1 \<and> (\<forall>w\<in>set new. w_y w = 0) \<and>
           lives m' = lives a - int (length (filter (\<lambda>w. w_y w + 1 \<ge> gameHeight) (words a)))"
proof -
  let ?m = "moveWords a"
  have d: "dict ?m = dict a" by (simp add: moveWords_char)
  have w: "words ?m = filter (\<lambda>w. w_y w < gameHeight) (map (\<lambda>w. w\<lparr>w_y := w_y w + 1\<rparr>) (words a))"
    by (simp add: moveWords_char keep_descend)
  have l: "lives ?m = lives a - int (length (filter (\<lambda>w. w_y w + 1 \<ge> gameHeight) (words a)))"
    by (simp add: moveWords_char nLanded_eq)
  from maybeAdd_shape[OF _ assms(3), of "maybeAddWordA ?m g" ?m] maybeAddWordA_cases[of ?m g] d
  obtain m' g' new where
    r: "maybeAddWordA ?m g = Some (m', g')" "words m' = words ?m @ new" "length new \<le> 1"
       "\<forall>w\<in>set new. w_y w = 0" "lives m' = lives ?m"
    by (metis assms(3))
  have "UpdateA TickMsg a g = Some ((m', TickCmd), g')" using assms r(1) by simp
  then show ?thesis using r w l by (intro exI[of _ m'] exI[of _ g'] exI[of _ new]) simp
qed

lemma tickB_descent:
  assumes "\<not> paused b" "\<not> gameOver b" "dict b \<noteq> []"
  shows "\<exists>m' g' new. UpdateB TickMsg b g = Some ((m', TickCmd), g') \<and>
           words m' = filter (\<lambda>w. w_y w < gameHeight) (map (\<lambda>w. w\<lparr>w_y := w_y w + 1\<rparr>) (words b)) @ new \<and>
           length new \<le> 1 \<and> (\<forall>w\<in>set new. w_y w = 0) \<and>
           lives m' = lives b - int (length (filter (\<lambda>w. w_y w + 1 \<ge> gameHeight) (words b)))"
proof -
  define mw where "mw = moveWords b"
  obtain es where es: "updateEffects mw = mw\<lparr>effects := es\<rparr>"
    using updateEffects_frame by blast
  let ?m = "updateEffects mw"
  have d: "dict ?m = dict b" by (simp add: es) (simp add: mw_def moveWords_char)
  have w: "words ?m = filter (\<lambda>w. w_y w < gameHeight) (map (\<lambda>w. w\<lparr>w_y := w_y w + 1\<rparr>) (words b))"
    by (simp add: es) (simp add: mw_def moveWords_char keep_descend)
  have l: "lives ?m = lives b - int (length (filter (\<lambda>w. w_y w + 1 \<ge> gameHeight) (words b)))"
    by (simp add: es) (simp add: mw_def moveWords_char nLanded_eq)
  from maybeAdd_shape[OF _ assms(3), of "maybeAddWordB ?m g" ?m] maybeAddWordB_cases[of ?m g] d
  obtain m' g' new where
    r: "maybeAddWordB ?m g = Some (m', g')" "words m' = words ?m @ new" "length new \<le> 1"
       "\<forall>w\<in>set new. w_y w = 0" "lives m' = lives ?m"
    by (metis assms(3))
  have "UpdateB TickMsg b g = Some ((m', TickCmd), g')" using assms r(1) by (simp add: mw_def)
  then show ?thesis using r w l by (intro exI[of _ m'] exI[of _ g'] exI[of _ new]) simp
qed

subsection \<open>The scan for the first matching word\<close>

lemma matchWordLoopA_miss:
  "(\<forall>k. i \<le> k \<and> k < length (words m) \<longrightarrow> \<not> prefix (input m) (w_text (words m ! k))) \<Longrightarrow>
   matchWordLoopA i m = miss m"
proof (induction i m rule: matchWordLoopA.induct)
  case (1 i m)
  show ?case
  proof (cases "i < length (words m)")
    case True
    with "1.prems" have np: "\<not> prefix (input m) (w_text (words m ! i))" by simp
    have "matchWordLoopA i m = matchWordLoopA (Suc i) m"
      using True np by (subst matchWordLoopA.simps) simp
    also have "\<dots> = miss m"
      using "1.IH"[OF True np] "1.prems" by simp
    finally show ?thesis .
  next
    case False
    then show ?thesis by (subst matchWordLoopA.simps) (simp add: miss_def)
  qed
qed

lemma take_drop_upd:
  "i < length ws \<Longrightarrow> take i (ws[i := v]) @ drop (Suc i) (ws[i := v]) = take i ws @ drop (Suc i) ws"
  by simp

lemma matchWordLoopA_at:
  assumes "j < length (words m)" "prefix (input m) (w_text (words m ! j))"
  shows "matchWordLoopA j m = (if input m = w_text (words m ! j) then hitAt j m else trackAt j m)"
  using assms
  by (subst matchWordLoopA.simps) (simp add: Let_def hitAt_def trackAt_def)

lemma matchWordLoopA_found:
  "i \<le> j \<Longrightarrow> j < length (words m) \<Longrightarrow> prefix (input m) (w_text (words m ! j)) \<Longrightarrow>
   (\<forall>k. i \<le> k \<and> k < j \<longrightarrow> \<not> prefix (input m) (w_text (words m ! k))) \<Longrightarrow>
   matchWordLoopA i m = (if input m = w_text (words m ! j) then hitAt j m else trackAt j m)"
proof (induction "j - i" arbitrary: i)
  case 0
  then have "i = j" by simp
  then show ?case using 0 matchWordLoopA_at by blast
next
  case (Suc d)
  then have lt: "i < j" by simp
  with Suc.prems have np: "\<not> prefix (input m) (w_text (words m ! i))" by simp
  have il: "i < length (words m)" using lt Suc.prems by simp
  have "matchWordLoopA i m = matchWordLoopA (Suc i) m"
    using il np by (subst matchWordLoopA.simps) simp
  also have "\<dots> = (if input m = w_text (words m ! j) then hitAt j m else trackAt j m)"
    using Suc.hyps(1)[of "Suc i"] Suc.hyps(2) Suc.prems lt by simp
  finally show ?case .
qed

subsection \<open>The explosion loop\<close>

lemma createExplosionLoop_step:
  "int i < n \<Longrightarrow> wl \<noteq> 0 \<Longrightarrow>
   createExplosionLoop i n ex ey wl ps g =
   createExplosionLoop (Suc i) n ex ey wl (ps @ [mkParticle i n ex ey wl g]) (sdrop 3 g)"
  by (subst createExplosionLoop.simps)
     (simp add: Let_def Float64_def Intn_def chars_def mkParticle_def direction_def speedOf_def
        numeral_3_eq_3)

lemma createExplosionLoop_done:
  "\<not> int i < n \<Longrightarrow> createExplosionLoop i n ex ey wl ps g = Some (ps, g)"
  by (subst createExplosionLoop.simps) simp

lemma createExplosionLoop_char:
  "wl \<noteq> 0 \<Longrightarrow>
   createExplosionLoop i n ex ey wl ps g =
     Some (ps @ map (\<lambda>k. mkParticle k n ex ey wl (sdrop (3 * (k - i)) g)) [i..<nat n],
           sdrop (3 * (nat n - i)) g)"
proof (induction "nat n - i" arbitrary: i ps g)
  case 0
  then have "\<not> int i < n" by linarith
  moreover have "[i..<nat n] = []" using 0 by simp
  ultimately show ?case using 0 by (simp add: createExplosionLoop_done)
next
  case (Suc d)
  then have lt: "int i < n" by linarith
  then have lt': "i < nat n" by linarith
  have d: "d = nat n - Suc i" using Suc.hyps(2) by simp
  have eqm: "map (\<lambda>k. mkParticle k n ex ey wl (sdrop (3 * (k - Suc i)) (sdrop 3 g))) [Suc i..<nat n]
           = map (\<lambda>k. mkParticle k n ex ey wl (sdrop (3 * (k - i)) g)) [Suc i..<nat n]"
  proof (rule map_cong[OF refl])
    fix k assume "k \<in> set [Suc i..<nat n]"
    then have "3 * (k - Suc i) + 3 = 3 * (k - i)" by auto
    then have "sdrop (3 * (k - Suc i)) (sdrop 3 g) = sdrop (3 * (k - i)) g"
      by (metis add.commute sdrop_add)
    then show "mkParticle k n ex ey wl (sdrop (3 * (k - Suc i)) (sdrop 3 g)) =
               mkParticle k n ex ey wl (sdrop (3 * (k - i)) g)" by simp
  qed
  have "3 * (nat n - Suc i) + 3 = 3 * (nat n - i)" using lt' by auto
  then have eqg: "sdrop (3 * (nat n - Suc i)) (sdrop 3 g) = sdrop (3 * (nat n - i)) g"
    by (metis add.commute sdrop_add)
  have "createExplosionLoop i n ex ey wl ps g =
        createExplosionLoop (Suc i) n ex ey wl (ps @ [mkParticle i n ex ey wl g]) (sdrop 3 g)"
    using lt Suc.prems by (rule createExplosionLoop_step)
  also have "\<dots> = Some ((ps @ [mkParticle i n ex ey wl g]) @
        map (\<lambda>k. mkParticle k n ex ey wl (sdrop (3 * (k - Suc i)) (sdrop 3 g))) [Suc i..<nat n],
        sdrop (3 * (nat n - Suc i)) (sdrop 3 g))"
    using Suc.hyps(1)[OF d Suc.prems] .
  also have "\<dots> = Some (ps @ map (\<lambda>k. mkParticle k n ex ey wl (sdrop (3 * (k - i)) g)) [i..<nat n],
        sdrop (3 * (nat n - i)) g)"
    unfolding eqm eqg using lt' by (simp add: upt_conv_Cons)
  finally show ?case .
qed

lemma createExplosion_char:
  "wl \<noteq> 0 \<Longrightarrow>
   createExplosion ex ey wl g =
     Some (explosion ex ey wl g, sdrop (3 * nat (8 + wl * 2)) g)"
  by (simp add: createExplosion_def createExplosionLoop_char explosion_def)

lemma createExplosion_zero: "createExplosion ex ey 0 g = None"
  by (simp add: createExplosion_def) (subst createExplosionLoop.simps, simp)






lemma matchWordLoopB_miss:
  "(\<forall>k. i \<le> k \<and> k < length (words m) \<longrightarrow> \<not> prefix (input m) (w_text (words m ! k))) \<Longrightarrow>
   matchWordLoopB i m g = Some (miss m, g)"
proof (induction i m g rule: matchWordLoopB.induct)
  case (1 i m g)
  show ?case
  proof (cases "i < length (words m)")
    case True
    with "1.prems" have np: "\<not> prefix (input m) (w_text (words m ! i))" by simp
    have "matchWordLoopB i m g = matchWordLoopB (Suc i) m g"
      using True np by (subst matchWordLoopB.simps) simp
    also have "\<dots> = Some (miss m, g)"
      using "1.IH"[OF True np] "1.prems" by simp
    finally show ?thesis .
  next
    case False
    then show ?thesis by (subst matchWordLoopB.simps) (simp add: miss_def)
  qed
qed

lemma matchWordLoopB_at:
  assumes "j < length (words m)" "prefix (input m) (w_text (words m ! j))" "input m \<noteq> []"
  shows "matchWordLoopB j m g =
          (if input m = w_text (words m ! j)
           then Some (hitAtB j m g, sdrop (3 * nat (8 + int (length (w_text (words m ! j))) * 2)) g)
           else Some (trackAt j m, g))"
proof (cases "input m = w_text (words m ! j)")
  case True
  with assms(3) have nz: "int (length (w_text (words m ! j))) \<noteq> 0" by auto
  show ?thesis
    using assms True createExplosion_char[OF nz, of "w_x (words m ! j)" "w_y (words m ! j)" g]
    by (subst matchWordLoopB.simps) (simp add: Let_def hitAtB_def hitAt_def)
next
  case False
  then show ?thesis
    using assms by (subst matchWordLoopB.simps) (simp add: Let_def trackAt_def)
qed

lemma matchWordLoopB_found:
  "i \<le> j \<Longrightarrow> j < length (words m) \<Longrightarrow> prefix (input m) (w_text (words m ! j)) \<Longrightarrow>
   input m \<noteq> [] \<Longrightarrow>
   (\<forall>k. i \<le> k \<and> k < j \<longrightarrow> \<not> prefix (input m) (w_text (words m ! k))) \<Longrightarrow>
   matchWordLoopB i m g =
     (if input m = w_text (words m ! j)
      then Some (hitAtB j m g, sdrop (3 * nat (8 + int (length (w_text (words m ! j))) * 2)) g)
      else Some (trackAt j m, g))"
proof (induction "j - i" arbitrary: i)
  case 0
  then have "i = j" by simp
  then show ?case using 0 matchWordLoopB_at by blast
next
  case (Suc d)
  then have lt: "i < j" by simp
  with Suc.prems have np: "\<not> prefix (input m) (w_text (words m ! i))" by simp
  have il: "i < length (words m)" using lt Suc.prems by simp
  have "matchWordLoopB i m g = matchWordLoopB (Suc i) m g"
    using il np by (subst matchWordLoopB.simps) simp
  also have "\<dots> = (if input m = w_text (words m ! j)
      then Some (hitAtB j m g, sdrop (3 * nat (8 + int (length (w_text (words m ! j))) * 2)) g)
      else Some (trackAt j m, g))"
    using Suc.hyps(1)[of "Suc i"] Suc.hyps(2) Suc.prems lt by simp
  finally show ?case .
qed

lemma first_match_exists:
  assumes "\<exists>k < length ws. P (ws ! k)"
  shows "\<exists>j < length ws. P (ws ! j) \<and> (\<forall>k < j. \<not> P (ws ! k))"
proof -
  let ?j = "LEAST k. k < length ws \<and> P (ws ! k)"
  from assms obtain k where k: "k < length ws \<and> P (ws ! k)" by blast
  have a: "?j < length ws \<and> P (ws ! ?j)" using k by (rule LeastI)
  have "\<forall>i < ?j. \<not> P (ws ! i)"
  proof (intro allI impI)
    fix i assume i: "i < ?j"
    show "\<not> P (ws ! i)"
    proof
      assume "P (ws ! i)"
      moreover have "i < length ws" using i a by simp
      ultimately have "?j \<le> i" by (intro Least_le) simp
      with i show False by simp
    qed
  qed
  with a show ?thesis by blast
qed

lemma matchWordA_cases:
  assumes "input m \<noteq> []"
  shows "(matchWordA m = miss m \<and> (\<forall>k < length (words m). \<not> prefix (input m) (w_text (words m ! k)))) \<or>
         (\<exists>j < length (words m). prefix (input m) (w_text (words m ! j)) \<and>
            (\<forall>k < j. \<not> prefix (input m) (w_text (words m ! k))) \<and>
            matchWordA m = (if input m = w_text (words m ! j) then hitAt j m else trackAt j m))"
proof (cases "\<exists>k < length (words m). prefix (input m) (w_text (words m ! k))")
  case True
  from first_match_exists[of "words m" "\<lambda>w. prefix (input m) (w_text w)", OF True]
  obtain j where j: "j < length (words m)" "prefix (input m) (w_text (words m ! j))"
    "\<forall>k < j. \<not> prefix (input m) (w_text (words m ! k))" by blast
  have "matchWordA m = (if input m = w_text (words m ! j) then hitAt j m else trackAt j m)"
    using assms j matchWordLoopA_found[of 0 j m] by (simp add: matchWordA_def)
  with j show ?thesis by blast
next
  case False
  then have "matchWordA m = miss m"
    using assms matchWordLoopA_miss[of 0 m] by (simp add: matchWordA_def)
  with False show ?thesis by blast
qed

lemma matchWordB_cases:
  assumes "input m \<noteq> []"
  shows "(matchWordB m g = Some (miss m, g) \<and> (\<forall>k < length (words m). \<not> prefix (input m) (w_text (words m ! k)))) \<or>
         (\<exists>j < length (words m). prefix (input m) (w_text (words m ! j)) \<and>
            (\<forall>k < j. \<not> prefix (input m) (w_text (words m ! k))) \<and>
            matchWordB m g =
              (if input m = w_text (words m ! j)
               then Some (hitAtB j m g, sdrop (3 * nat (8 + int (length (w_text (words m ! j))) * 2)) g)
               else Some (trackAt j m, g)))"
proof (cases "\<exists>k < length (words m). prefix (input m) (w_text (words m ! k))")
  case True
  from first_match_exists[of "words m" "\<lambda>w. prefix (input m) (w_text w)", OF True]
  obtain j where j: "j < length (words m)" "prefix (input m) (w_text (words m ! j))"
    "\<forall>k < j. \<not> prefix (input m) (w_text (words m ! k))" by blast
  have "matchWordB m g =
              (if input m = w_text (words m ! j)
               then Some (hitAtB j m g, sdrop (3 * nat (8 + int (length (w_text (words m ! j))) * 2)) g)
               else Some (trackAt j m, g))"
    using assms j matchWordLoopB_found[of 0 j m g] by (simp add: matchWordB_def)
  with j show ?thesis by blast
next
  case False
  then have "matchWordB m g = Some (miss m, g)"
    using assms matchWordLoopB_miss[of 0 m g] by (simp add: matchWordB_def)
  with False show ?thesis by blast
qed

subsection \<open>Keystrokes\<close>

lemma isLetter_not_special:
  assumes "isLetter k"
  shows "k \<noteq> ''ctrl+c''" "k \<noteq> ''ctrl+l''" "k \<noteq> ''ctrl+p''" "k \<noteq> ''backspace''" "k \<noteq> '' ''"
  using assms by (auto simp: isLetter_def)

lemma letterA:
  "\<not> gameOver m \<Longrightarrow> isLetter k \<Longrightarrow> k \<noteq> ''q'' \<Longrightarrow>
   UpdateA (KeyMsg k) m g = Some ((matchWordA (m\<lparr>input := input m @ k\<rparr>), NoCmd), g)"
  using isLetter_not_special[of k] by simp

lemma letterB:
  "\<not> gameOver m \<Longrightarrow> isLetter k \<Longrightarrow>
   UpdateB (KeyMsg k) m g =
     (case matchWordB (m\<lparr>input := input m @ k\<rparr>) g of
        None \<Rightarrow> None | Some (m', g') \<Rightarrow> Some ((m', NoCmd), g'))"
  using isLetter_not_special[of k] by simp

lemma isLetter_nonempty: "isLetter k \<Longrightarrow> k \<noteq> []"
  by (auto simp: isLetter_def)

lemma hitA:
  assumes "\<not> gameOver a" "isLetter k" "k \<noteq> ''q''" "j < length (words a)"
    "w_text (words a ! j) = input a @ k"
    "\<forall>i<j. \<not> prefix (input a @ k) (w_text (words a ! i))"
  shows "UpdateA (KeyMsg k) a g = Some ((hitAt j (a\<lparr>input := input a @ k\<rparr>), NoCmd), g)"
proof -
  let ?m = "a\<lparr>input := input a @ k\<rparr>"
  have "matchWordLoopA 0 ?m = (if input ?m = w_text (words ?m ! j) then hitAt j ?m else trackAt j ?m)"
    using assms by (intro matchWordLoopA_found) simp_all
  then have "matchWordA ?m = hitAt j ?m"
    using assms isLetter_nonempty[OF assms(2)] by (simp add: matchWordA_def)
  then show ?thesis using letterA[OF assms(1,2,3), of g] by simp
qed

lemma hitB:
  assumes "\<not> gameOver b" "isLetter k" "j < length (words b)"
    "w_text (words b ! j) = input b @ k"
    "\<forall>i<j. \<not> prefix (input b @ k) (w_text (words b ! i))"
  shows "UpdateB (KeyMsg k) b g =
     Some ((hitAtB j (b\<lparr>input := input b @ k\<rparr>) g, NoCmd),
           sdrop (3 * nat (8 + int (length (input b @ k)) * 2)) g)"
proof -
  let ?m = "b\<lparr>input := input b @ k\<rparr>"
  have ne: "input ?m \<noteq> []" using isLetter_nonempty[OF assms(2)] by simp
  have "matchWordLoopB 0 ?m g =
     (if input ?m = w_text (words ?m ! j)
      then Some (hitAtB j ?m g, sdrop (3 * nat (8 + int (length (w_text (words ?m ! j))) * 2)) g)
      else Some (trackAt j ?m, g))"
    using assms ne by (intro matchWordLoopB_found) simp_all
  then have "matchWordB ?m g = Some (hitAtB j ?m g, sdrop (3 * nat (8 + int (length (input b @ k)) * 2)) g)"
    using assms isLetter_nonempty[OF assms(2)] by (simp add: matchWordB_def)
  then show ?thesis using letterB[OF assms(1,2), of g] by simp
qed

text \<open>The equations that evaluate a run on concrete input.\<close>

lemmas run_simps =
  moveWords_def updateEffects_def maybeAddWordA_def maybeAddWordB_def addWord_def
  Intn_def Float64_def Let_def spawnChanceA_1 spawnChanceB_1 matchWordA_def matchWordB_def matchWordLoopA.simps
  matchWordLoopB.simps initialModelA_def initialModelB_def isLetter_def
  screenWidth_def screenHeight_def gameHeight_def statusHeight_def backspace_def signed_divide_int_def signed_modulo_int_def

lemma missA:
  assumes "\<not> gameOver a" "isLetter k" "k \<noteq> ''q''"
    "\<forall>w\<in>set (words a). \<not> prefix (input a @ k) (w_text w)"
  shows "UpdateA (KeyMsg k) a g = Some ((a\<lparr>input := [], current := None\<rparr>, NoCmd), g)"
proof -
  let ?m = "a\<lparr>input := input a @ k\<rparr>"
  have "matchWordLoopA 0 ?m = miss ?m"
    using assms(4) by (intro matchWordLoopA_miss) simp
  then have "matchWordA ?m = a\<lparr>input := [], current := None\<rparr>"
    using isLetter_nonempty[OF assms(2)] by (simp add: matchWordA_def miss_def)
  then show ?thesis using letterA[OF assms(1,2,3), of g] by simp
qed

lemma missB:
  assumes "\<not> gameOver b" "isLetter k"
    "\<forall>w\<in>set (words b). \<not> prefix (input b @ k) (w_text w)"
  shows "UpdateB (KeyMsg k) b g = Some ((b\<lparr>input := [], current := None\<rparr>, NoCmd), g)"
proof -
  let ?m = "b\<lparr>input := input b @ k\<rparr>"
  have "matchWordLoopB 0 ?m g = Some (miss ?m, g)"
    using assms(3) by (intro matchWordLoopB_miss) simp
  then have "matchWordB ?m g = Some (b\<lparr>input := [], current := None\<rparr>, g)"
    using isLetter_nonempty[OF assms(2)] by (simp add: matchWordB_def miss_def)
  then show ?thesis using letterB[OF assms(1,2), of g] by simp
qed

lemma place_matched: "place (w\<lparr>w_matched := v\<rparr>) = place w"
  by (simp add: place_def)

lemma map_place_track: "map place (words (trackAt j m)) = map place (words m)"
proof -
  have "(map place (words m))[j := place (words m ! j)] = map place (words m)"
    by (cases "j < length (words m)") (simp_all add: list_update_same_conv list_update_beyond)
  then show ?thesis by (simp add: trackAt_def map_update place_matched)
qed

lemma backspace_eq: "backspace m = m\<lparr>input := butlast (input m), current := None\<rparr>"
  by (cases "input m = []") (simp_all add: backspace_def butlast_conv_take)

lemma keyA_frame:
  assumes "\<not> gameOver a"
  shows "\<exists>m' c. UpdateA (KeyMsg k) a g = Some ((m', c), g) \<and> lives m' = lives a \<and>
           (map place (words m') = map place (words a) \<or>
            (\<exists>j<length (words a). isLetter k \<and> w_text (words a ! j) = input a @ k \<and>
               words m' = take j (words a) @ drop (Suc j) (words a))) \<and>
           (k = ''backspace'' \<longrightarrow> m' = a\<lparr>input := butlast (input a), current := None\<rparr>)"
proof (cases "isLetter k \<and> k \<noteq> ''q''")
  case True
  let ?m = "a\<lparr>input := input a @ k\<rparr>"
  have ne: "input ?m \<noteq> []" using True isLetter_nonempty by simp
  have upd: "UpdateA (KeyMsg k) a g = Some ((matchWordA ?m, NoCmd), g)"
    using letterA[of a k g] True assms by blast
  have nb: "k \<noteq> ''backspace''" using True isLetter_not_special by blast
  from matchWordA_cases[OF ne] show ?thesis
  proof (elim disjE conjE exE)
    assume "matchWordA ?m = miss ?m"
    then show ?thesis using upd nb by (simp add: miss_def)
  next
    fix j assume j: "j < length (words ?m)" "prefix (input ?m) (w_text (words ?m ! j))"
      and r: "matchWordA ?m = (if input ?m = w_text (words ?m ! j) then hitAt j ?m else trackAt j ?m)"
    show ?thesis
    proof (cases "input ?m = w_text (words ?m ! j)")
      case hit: True
      then have "matchWordA ?m = hitAt j ?m" using r by simp
      then show ?thesis using upd nb j hit True
        by (intro exI[of _ "hitAt j ?m"] exI[of _ NoCmd]) (auto simp: hitAt_def)
    next
      case False
      then have "matchWordA ?m = trackAt j ?m" using r by simp
      moreover have "map place (words (trackAt j ?m)) = map place (words a)"
        by (simp add: map_place_track)
      moreover have "lives (trackAt j ?m) = lives a" by (simp add: trackAt_def)
      ultimately show ?thesis using upd nb by simp
    qed
  qed
next
  case False
  then show ?thesis using assms by (auto simp: backspace_eq)
qed

lemma keyB_frame:
  assumes "\<not> gameOver b"
  shows "\<exists>m' c g'. UpdateB (KeyMsg k) b g = Some ((m', c), g') \<and> lives m' = lives b \<and>
           (map place (words m') = map place (words b) \<or>
            (\<exists>j<length (words b). isLetter k \<and> w_text (words b ! j) = input b @ k \<and>
               words m' = take j (words b) @ drop (Suc j) (words b))) \<and>
           (k = ''backspace'' \<longrightarrow> m' = b\<lparr>input := butlast (input b), current := None\<rparr> \<and> g' = g)"
proof (cases "isLetter k")
  case True
  let ?m = "b\<lparr>input := input b @ k\<rparr>"
  have ne: "input ?m \<noteq> []" using True isLetter_nonempty by simp
  have upd: "UpdateB (KeyMsg k) b g =
     (case matchWordB ?m g of None \<Rightarrow> None | Some (m', g') \<Rightarrow> Some ((m', NoCmd), g'))"
    using letterB[of b k g] True assms by blast
  have nb: "k \<noteq> ''backspace''" using True isLetter_not_special by blast
  from matchWordB_cases[OF ne, of g] show ?thesis
  proof (elim disjE conjE exE)
    assume "matchWordB ?m g = Some (miss ?m, g)"
    then show ?thesis using upd nb by (simp add: miss_def)
  next
    fix j assume j: "j < length (words ?m)" "prefix (input ?m) (w_text (words ?m ! j))"
      and r: "matchWordB ?m g =
              (if input ?m = w_text (words ?m ! j)
               then Some (hitAtB j ?m g, sdrop (3 * nat (8 + int (length (w_text (words ?m ! j))) * 2)) g)
               else Some (trackAt j ?m, g))"
    show ?thesis
    proof (cases "input ?m = w_text (words ?m ! j)")
      case hit: True
      then have "UpdateB (KeyMsg k) b g =
         Some ((hitAtB j ?m g, NoCmd), sdrop (3 * nat (8 + int (length (w_text (words ?m ! j))) * 2)) g)"
        using r upd by simp
      then show ?thesis using nb j hit True
        by (intro exI[of _ "hitAtB j ?m g"] exI[of _ NoCmd]
              exI[of _ "sdrop (3 * nat (8 + int (length (w_text (words ?m ! j))) * 2)) g"])
           (auto simp: hitAt_def hitAtB_def)
    next
      case False
      then have "UpdateB (KeyMsg k) b g = Some ((trackAt j ?m, NoCmd), g)" using r upd by simp
      moreover have "map place (words (trackAt j ?m)) = map place (words b)"
        by (simp add: map_place_track)
      moreover have "lives (trackAt j ?m) = lives b" by (simp add: trackAt_def)
      ultimately show ?thesis using nb by simp
    qed
  qed
next
  case False
  then show ?thesis using assms by (auto simp: backspace_eq)
qed

subsection \<open>Ticks while paused or after game over\<close>

lemma ticks_frozenA:
  "paused a \<or> gameOver a \<Longrightarrow> runA (replicate n TickMsg) a g = Some (a, g)"
  by (induction n) auto

lemma ticks_frozenB:
  "paused b \<or> gameOver b \<Longrightarrow> runB (replicate n TickMsg) b g = Some (b, g)"
  by (induction n) auto

subsection \<open>The spawn decision\<close>











subsection \<open>Placement of a new word; what an event does to the words\<close>

lemma addWord_None: "dict m = [] \<Longrightarrow> addWord m g = None"
  by (simp add: addWord_def Intn_def)

lemma spawned_fits:
  assumes "d \<noteq> []" "int (length (w_text (spawned d g))) \<le> screenWidth"
  shows "w_x (spawned d g) + int (length (w_text (spawned d g))) \<le> screenWidth"
  using spawned_props(5)[OF assms(1), of g] assms(2) by (auto simp: max_def split: if_splits)

lemma spawned_draws:
  assumes "d \<noteq> []"
  shows "w_text (spawned d s) = d ! nat (fst (the (Intn (int (length d)) s)))"
    "w_x (spawned d s) =
       fst (the (Intn (max 0 (screenWidth - int (length (w_text (spawned d s))) - 1) + 1) (stl s)))"
proof -
  have pos: "\<not> max 0 (screenWidth - int (length (w_text (spawned d s))) - 1) + 1 \<le> 0"
    by simp
  show "w_text (spawned d s) = d ! nat (fst (the (Intn (int (length d)) s)))"
    using assms by (simp add: spawned_def Intn_def Let_def)
  show "w_x (spawned d s) =
       fst (the (Intn (max 0 (screenWidth - int (length (w_text (spawned d s))) - 1) + 1) (stl s)))"
    unfolding Intn_def using pos by (simp add: spawned_def Let_def)
qed

lemma maybeAddWordA_placement:
  assumes "maybeAddWordA a g = Some (a', g')"
  shows "words a' = words a \<or>
         (\<exists>w. words a' = words a @ [w] \<and> w_text w \<in> set (dict a) \<and> w_y w = 0 \<and> 0 \<le> w_x w \<and>
              w_x w \<le> max 0 (screenWidth - int (length (w_text w)) - 1) \<and>
              (int (length (w_text w)) \<le> screenWidth \<longrightarrow>
                 w_x w + int (length (w_text w)) \<le> screenWidth) \<and>
              w_text w = dict a ! nat (fst (the (Intn (int (length (dict a))) (stl g)))) \<and>
              w_x w = fst (the (Intn (max 0 (screenWidth - int (length (w_text w)) - 1) + 1)
                                     (stl (stl g)))))"
proof (cases "dict a = []")
  case True
  then show ?thesis using assms
    by (auto simp: maybeAddWordA_def Float64_def addWord_None Let_def split: if_splits)
next
  case False
  from maybeAddWordA_cases[OF False, of g] assms
  consider "a' = a" | "a' = a\<lparr>words := words a @ [spawned (dict a) (stl g)]\<rparr>" by auto
  then show ?thesis
  proof cases
    case 1
    then show ?thesis by simp
  next
    case 2
    then show ?thesis
      using spawned_props[OF False, of "stl g"] spawned_fits[OF False, of "stl g"]
        spawned_draws[OF False, of "stl g"]
      by (intro disjI2 exI[of _ "spawned (dict a) (stl g)"]) simp
  qed
qed

lemma maybeAddWordB_placement:
  assumes "maybeAddWordB b g = Some (b', g')"
  shows "words b' = words b \<or>
         (\<exists>w. words b' = words b @ [w] \<and> w_text w \<in> set (dict b) \<and> w_y w = 0 \<and> 0 \<le> w_x w \<and>
              w_x w \<le> max 0 (screenWidth - int (length (w_text w)) - 1) \<and>
              (int (length (w_text w)) \<le> screenWidth \<longrightarrow>
                 w_x w + int (length (w_text w)) \<le> screenWidth) \<and>
              (\<exists>s. (s = g \<or> s = stl g) \<and>
                 w_text w = dict b ! nat (fst (the (Intn (int (length (dict b))) s))) \<and>
                 w_x w = fst (the (Intn (max 0 (screenWidth - int (length (w_text w)) - 1) + 1)
                                        (stl s)))))"
proof (cases "dict b = []")
  case True
  then show ?thesis using assms
    by (auto simp: maybeAddWordB_def Float64_def addWord_None Let_def split: if_splits)
next
  case False
  from maybeAddWordB_cases[OF False, of g] assms
  consider "b' = b" | "b' = b\<lparr>words := words b @ [spawned (dict b) g]\<rparr>"
    | "b' = b\<lparr>words := words b @ [spawned (dict b) (stl g)]\<rparr>" by auto
  then show ?thesis
  proof cases
    case 1
    then show ?thesis by simp
  next
    case 2
    then show ?thesis
      using spawned_props[OF False, of g] spawned_fits[OF False, of g]
        spawned_draws[OF False, of g]
      by (intro disjI2 exI[of _ "spawned (dict b) g"]) auto
  next
    case 3
    then show ?thesis
      using spawned_props[OF False, of "stl g"] spawned_fits[OF False, of "stl g"]
        spawned_draws[OF False, of "stl g"]
      by (intro disjI2 exI[of _ "spawned (dict b) (stl g)"]) auto
  qed
qed

lemma subseq_remove_nth: "subseq (take j ws @ drop (Suc j) ws) ws"
proof -
  have "suffix (drop 1 (drop j ws)) (drop j ws)" by (rule suffix_drop)
  then have "subseq (drop (Suc j) ws) (drop j ws)" by (simp add: suffix_imp_subseq)
  then have "subseq (take j ws @ drop (Suc j) ws) (take j ws @ drop j ws)"
    by (simp only: subseq_append')
  then show ?thesis by simp
qed

lemma new_word_shape:
  assumes "ws' = ws \<or> (\<exists>w. ws' = ws @ [w] \<and> P w)" and "\<And>w. P w \<Longrightarrow> Q w"
  shows "\<exists>new. ws' = ws @ new \<and> length new \<le> 1 \<and> (\<forall>w\<in>set new. Q w)"
proof -
  from assms(1) consider "ws' = ws" | w where "ws' = ws @ [w]" "P w" by blast
  then show ?thesis
  proof cases
    case 1
    then show ?thesis by (intro exI[of _ "[]"]) simp
  next
    case 2
    then show ?thesis using assms(2)[of w] by (intro exI[of _ "[w]"]) simp
  qed
qed

lemma words_moveWords:
  "words (moveWords m) =
     filter (\<lambda>w. w_y w < gameHeight) (map (\<lambda>w. w\<lparr>w_y := w_y w + 1\<rparr>) (words m))"
  by (simp add: moveWords_char keep_descend)

lemma UpdateA_words:
  assumes "UpdateA e a g = Some ((a', c), g')"
  shows "if e = TickMsg \<and> \<not> paused a \<and> \<not> gameOver a
         then \<exists>new. words a' =
                  filter (\<lambda>w. w_y w < gameHeight) (map (\<lambda>w. w\<lparr>w_y := w_y w + 1\<rparr>) (words a)) @ new \<and>
                length new \<le> 1 \<and>
                (\<forall>w\<in>set new. w_y w = 0 \<and> w_text w \<in> set (dict a) \<and> 0 \<le> w_x w \<and>
                   w_x w \<le> max 0 (screenWidth - int (length (w_text w)) - 1))
         else map place (words a') = map place (words a) \<or>
              (\<exists>j<length (words a). words a' = take j (words a) @ drop (Suc j) (words a))"
proof (cases e)
  case (KeyMsg k)
  show ?thesis
  proof (cases "gameOver a")
    case True
    then have "a' = a" using assms KeyMsg by (simp split: if_splits)
    then show ?thesis using KeyMsg by simp
  next
    case False
    from keyA_frame[OF False, of k g] assms KeyMsg
    have "map place (words a') = map place (words a) \<or>
          (\<exists>j<length (words a). words a' = take j (words a) @ drop (Suc j) (words a))"
      by auto
    then show ?thesis using KeyMsg by simp
  qed
next
  case TickMsg
  show ?thesis
  proof (cases "\<not> paused a \<and> \<not> gameOver a")
    case True
    then obtain r where r: "maybeAddWordA (moveWords a) g = Some (a', r)"
      using assms TickMsg by (auto split: option.splits)
    have d: "dict (moveWords a) = dict a" by (simp add: moveWords_char)
    from new_word_shape[OF maybeAddWordA_placement[OF r],
        of "\<lambda>w. w_y w = 0 \<and> w_text w \<in> set (dict a) \<and> 0 \<le> w_x w \<and>
                   w_x w \<le> max 0 (screenWidth - int (length (w_text w)) - 1)"]
    have "\<exists>new. words a' = words (moveWords a) @ new \<and> length new \<le> 1 \<and>
            (\<forall>w\<in>set new. w_y w = 0 \<and> w_text w \<in> set (dict a) \<and> 0 \<le> w_x w \<and>
               w_x w \<le> max 0 (screenWidth - int (length (w_text w)) - 1))"
      unfolding d by blast
    then show ?thesis using TickMsg True unfolding words_moveWords by simp
  next
    case False
    then have "a' = a" using assms TickMsg by auto
    then show ?thesis using TickMsg False by auto
  qed
next
  case (WindowSizeMsg w h)
  then have "words a' = words a" using assms by auto
  then show ?thesis using WindowSizeMsg by simp
next
  case OtherMsg
  then have "a' = a" using assms by simp
  then show ?thesis using OtherMsg by simp
qed

lemma UpdateB_words:
  assumes "UpdateB e b g = Some ((b', c), g')"
  shows "if e = TickMsg \<and> \<not> paused b \<and> \<not> gameOver b
         then \<exists>new. words b' =
                  filter (\<lambda>w. w_y w < gameHeight) (map (\<lambda>w. w\<lparr>w_y := w_y w + 1\<rparr>) (words b)) @ new \<and>
                length new \<le> 1 \<and>
                (\<forall>w\<in>set new. w_y w = 0 \<and> w_text w \<in> set (dict b) \<and> 0 \<le> w_x w \<and>
                   w_x w \<le> max 0 (screenWidth - int (length (w_text w)) - 1))
         else map place (words b') = map place (words b) \<or>
              (\<exists>j<length (words b). words b' = take j (words b) @ drop (Suc j) (words b))"
proof (cases e)
  case (KeyMsg k)
  show ?thesis
  proof (cases "gameOver b")
    case True
    then have "b' = b" using assms KeyMsg by (simp split: if_splits)
    then show ?thesis using KeyMsg by simp
  next
    case False
    from keyB_frame[OF False, of k g] assms KeyMsg
    have "map place (words b') = map place (words b) \<or>
          (\<exists>j<length (words b). words b' = take j (words b) @ drop (Suc j) (words b))"
      by auto
    then show ?thesis using KeyMsg by simp
  qed
next
  case TickMsg
  show ?thesis
  proof (cases "\<not> paused b \<and> \<not> gameOver b")
    case True
    define mw where "mw = moveWords b"
    obtain es where es: "updateEffects mw = mw\<lparr>effects := es\<rparr>"
      using updateEffects_frame by blast
    obtain r where r: "maybeAddWordB (updateEffects mw) g = Some (b', r)"
      using assms TickMsg True by (auto simp: mw_def split: option.splits)
    have w: "words (updateEffects mw) = words (moveWords b)" by (simp add: es) (simp add: mw_def)
    have d: "dict (updateEffects mw) = dict b" by (simp add: es) (simp add: mw_def moveWords_char)
    from new_word_shape[OF maybeAddWordB_placement[OF r],
        of "\<lambda>w. w_y w = 0 \<and> w_text w \<in> set (dict b) \<and> 0 \<le> w_x w \<and>
                   w_x w \<le> max 0 (screenWidth - int (length (w_text w)) - 1)"]
    have "\<exists>new. words b' = words (moveWords b) @ new \<and> length new \<le> 1 \<and>
            (\<forall>w\<in>set new. w_y w = 0 \<and> w_text w \<in> set (dict b) \<and> 0 \<le> w_x w \<and>
               w_x w \<le> max 0 (screenWidth - int (length (w_text w)) - 1))"
      unfolding d w by blast
    then show ?thesis using TickMsg True unfolding words_moveWords by simp
  next
    case False
    then have "b' = b" using assms TickMsg by auto
    then show ?thesis using TickMsg False by auto
  qed
next
  case (WindowSizeMsg w h)
  then have "words b' = words b" using assms by auto
  then show ?thesis using WindowSizeMsg by simp
next
  case OtherMsg
  then have "b' = b" using assms by simp
  then show ?thesis using OtherMsg by simp
qed

subsection \<open>The particles of an explosion\<close>



subsection \<open>The invariant of the reachable states\<close>

lemma subseq_subset: "subseq xs ys \<Longrightarrow> set xs \<subseteq> set ys"
  by (induction rule: list_emb.induct) auto

lemma subseq_distinct: "subseq xs ys \<Longrightarrow> distinct ys \<Longrightarrow> distinct xs"
proof (induction rule: list_emb.induct)
  case (list_emb_Nil ys)
  then show ?case by simp
next
  case (list_emb_Cons xs ys y)
  then show ?case by simp
next
  case (list_emb_Cons2 x y xs ys)
  from list_emb_Cons2.hyps(2) have "set xs \<subseteq> set ys" by (rule subseq_subset)
  with list_emb_Cons2 show ?case by auto
qed

lemma playable_sub:
  assumes "playable m" "subseq (map w_y (words m')) (map w_y (words m))"
    "lives m' = lives m" "gameOver m' = gameOver m"
  shows "playable m'"
proof -
  from assms(1) have d: "distinct (map w_y (words m))"
    and r: "\<forall>v\<in>set (map w_y (words m)). 0 \<le> v \<and> v < gameHeight"
    and l: "0 \<le> lives m \<and> (gameOver m \<longleftrightarrow> lives m = 0)"
    unfolding playable_def by blast+
  have d': "distinct (map w_y (words m'))" using assms(2) d by (rule subseq_distinct)
  have "set (map w_y (words m')) \<subseteq> set (map w_y (words m))" using assms(2) by (rule subseq_subset)
  with r have r': "\<forall>v\<in>set (map w_y (words m')). 0 \<le> v \<and> v < gameHeight" by blast
  show ?thesis unfolding playable_def using d' r' l assms(3,4) by simp
qed

lemma count_le_one: "distinct (map f xs) \<Longrightarrow> length (filter (\<lambda>x. f x = c) xs) \<le> 1"
proof (induction xs)
  case Nil
  then show ?case by simp
next
  case (Cons a xs)
  show ?case
  proof (cases "f a = c")
    case True
    from Cons.prems have "f a \<notin> f ` set xs" by simp
    then have "\<forall>x\<in>set xs. f x \<noteq> f a" by (metis imageI)
    with True have "\<forall>x\<in>set xs. f x \<noteq> c" by simp
    then have "filter (\<lambda>x. f x = c) xs = []" by (simp add: filter_empty_conv)
    with True show ?thesis by simp
  next
    case False
    with Cons show ?thesis by simp
  qed
qed

lemma nLanded_le_one:
  assumes "distinct (map w_y ws)" "\<forall>v\<in>set (map w_y ws). v < gameHeight"
  shows "nLanded ws \<le> 1"
proof -
  have "filter (\<lambda>w. w_y w + 1 \<ge> gameHeight) ws = filter (\<lambda>w. w_y w = gameHeight - 1) ws"
    using assms(2) by (intro filter_cong) auto
  then show ?thesis using count_le_one[OF assms(1), of "gameHeight - 1"] by (simp add: nLanded_eq)
qed

lemma rows_moveWords:
  "map w_y (words (moveWords m)) = filter (\<lambda>v. v < gameHeight) (map (\<lambda>v. v + 1) (map w_y (words m)))"
  by (simp add: moveWords_char filter_map o_def landed_def descend_def not_le)

lemma moveWords_playable:
  assumes "playable m" "\<not> gameOver m"
  shows "playable (moveWords m)" "\<forall>v\<in>set (map w_y (words (moveWords m))). 1 \<le> v"
proof -
  from assms have d: "distinct (map w_y (words m))"
    and r: "\<forall>v\<in>set (map w_y (words m)). 0 \<le> v \<and> v < gameHeight"
    and l: "1 \<le> lives m" by (auto simp: playable_def)
  have n: "nLanded (words m) \<le> 1" using d r by (intro nLanded_le_one) auto
  have "distinct (map (\<lambda>v. v + 1) (map w_y (words m)))"
    using d by (subst distinct_map) (auto simp: inj_on_def)
  then have d': "distinct (map w_y (words (moveWords m)))"
    unfolding rows_moveWords by (rule distinct_filter)
  have r': "\<forall>v\<in>set (map w_y (words (moveWords m))). 1 \<le> v \<and> v < gameHeight"
    unfolding rows_moveWords using r by auto
  then show "\<forall>v\<in>set (map w_y (words (moveWords m))). 1 \<le> v" by blast
  have l': "lives (moveWords m) = lives m - int (nLanded (words m))"
    by (simp add: moveWords_char)
  have g': "gameOver (moveWords m) = (nLanded (words m) > 0 \<and> lives m - int (nLanded (words m)) \<le> 0)"
    using assms(2) by (simp add: moveWords_char)
  have "0 \<le> lives (moveWords m) \<and> (gameOver (moveWords m) \<longleftrightarrow> lives (moveWords m) = 0)"
    using n l unfolding l' g' by (cases "nLanded (words m) = 0") auto
  with d' r' show "playable (moveWords m)" unfolding playable_def by force
qed

lemma append_playable:
  assumes "playable m" "\<forall>v\<in>set (map w_y (words m)). 1 \<le> v" "w_y w0 = 0"
  shows "playable (m\<lparr>words := words m @ [w0]\<rparr>)"
  using assms unfolding playable_def gameHeight_def screenHeight_def statusHeight_def by auto

lemma effects_playable: "playable (m\<lparr>effects := es\<rparr>) = playable m"
  by (simp add: playable_def)

lemma rows_track: "map w_y (words (trackAt j m)) = map w_y (words m)"
proof -
  have "map w_y (words (trackAt j m)) = map (\<lambda>(t, c, r). r) (map place (words (trackAt j m)))"
    by (simp add: place_def)
  also have "\<dots> = map w_y (words m)" by (simp only: map_place_track) (simp add: place_def)
  finally show ?thesis .
qed

lemma track_playable: "playable m \<Longrightarrow> playable (trackAt j m)"
  by (rule playable_sub[where m = m]) (simp_all add: rows_track, simp_all add: trackAt_def)

lemma rows_hit: "subseq (map w_y (words (hitAt j m))) (map w_y (words m))"
  using subseq_map[OF subseq_remove_nth[of j "words m"], of w_y] by (simp add: hitAt_def)

lemma hit_playable: "playable m \<Longrightarrow> playable (hitAt j m)"
  by (rule playable_sub[where m = m]) (simp_all add: rows_hit, simp_all add: hitAt_def)

lemma hitB_playable: "playable m \<Longrightarrow> playable (hitAtB j m g)"
  using hit_playable[of m j] by (simp add: hitAtB_def effects_playable)

lemma input_playable: "playable (m\<lparr>input := s\<rparr>) = playable m"
  by (simp add: playable_def)

lemma current_playable: "playable (m\<lparr>current := s\<rparr>) = playable m"
  by (simp add: playable_def)

lemma matchWordA_playable:
  assumes "playable m"
  shows "playable (matchWordA m)"
proof (cases "input m = []")
  case True
  then show ?thesis using assms by (simp add: matchWordA_def current_playable)
next
  case False
  from matchWordA_cases[OF False] show ?thesis
  proof (elim disjE exE conjE)
    assume "matchWordA m = miss m"
    then show ?thesis using assms by (simp add: miss_def input_playable current_playable)
  next
    fix j assume "matchWordA m = (if input m = w_text (words m ! j) then hitAt j m else trackAt j m)"
    then show ?thesis using track_playable[OF assms, of j] hit_playable[OF assms, of j]
      by (cases "input m = w_text (words m ! j)") simp_all
  qed
qed

lemma matchWordB_playable:
  assumes "playable m" "matchWordB m g = Some (m', g')"
  shows "playable m'"
proof (cases "input m = []")
  case True
  then show ?thesis using assms by (auto simp add: matchWordB_def current_playable)
next
  case False
  from matchWordB_cases[OF False, of g] show ?thesis
  proof (elim disjE exE conjE)
    assume "matchWordB m g = Some (miss m, g)"
    then show ?thesis using assms by (simp add: miss_def input_playable current_playable)
  next
    fix j assume "matchWordB m g =
              (if input m = w_text (words m ! j)
               then Some (hitAtB j m g, sdrop (3 * nat (8 + int (length (w_text (words m ! j))) * 2)) g)
               else Some (trackAt j m, g))"
    then show ?thesis using track_playable[OF assms(1), of j] hitB_playable[OF assms(1), of j g] assms(2)
      by (cases "input m = w_text (words m ! j)") auto
  qed
qed

lemma maybeAddWordA_result:
  assumes "maybeAddWordA a g = Some (a', g')"
  shows "a' = a \<or> (\<exists>w. a' = a\<lparr>words := words a @ [w]\<rparr> \<and> w_y w = 0)"
proof (cases "dict a = []")
  case True
  then show ?thesis using assms
    by (auto simp: maybeAddWordA_def Float64_def addWord_None Let_def split: if_splits)
next
  case False
  from maybeAddWordA_cases[OF False, of g] assms spawned_props(2)[OF False]
  show ?thesis by auto
qed

lemma maybeAddWordB_result:
  assumes "maybeAddWordB b g = Some (b', g')"
  shows "b' = b \<or> (\<exists>w. b' = b\<lparr>words := words b @ [w]\<rparr> \<and> w_y w = 0)"
proof (cases "dict b = []")
  case True
  then show ?thesis using assms
    by (auto simp: maybeAddWordB_def Float64_def addWord_None Let_def split: if_splits)
next
  case False
  from maybeAddWordB_cases[OF False, of g] assms spawned_props(2)[OF False]
  show ?thesis by auto
qed

lemma if_chain:
  "(if p0 then (if p1 then A else B)
    else if p2 then A' else if p3 then C else if p4 then D else if p5 then E
    else if p6 then F else B') \<in> {A, B, A', C, D, E, F, B'}"
  by simp

lemma UpdateA_key_cases:
  assumes "UpdateA (KeyMsg k) a g = Some ((a', c), g')"
  shows "a' = a \<or> a' = a\<lparr>paused := \<not> paused a\<rparr> \<or> a' = backspace a \<or>
        a' = matchWordA (a\<lparr>input := input a @ k\<rparr>)"
proof -
  have "UpdateA (KeyMsg k) a g \<in>
          {Some ((a, Quit), g), Some ((a, NoCmd), g), Some ((a, Quit), g),
           Some ((a, ClearScreen), g), Some ((a\<lparr>paused := \<not> paused a\<rparr>, NoCmd), g),
           Some ((backspace a, NoCmd), g),
           Some ((matchWordA (a\<lparr>input := input a @ k\<rparr>), NoCmd), g), Some ((a, NoCmd), g)}"
    unfolding UpdateA.simps by (rule if_chain)
  with assms show ?thesis by auto
qed

lemma UpdateB_key_cases:
  assumes "UpdateB (KeyMsg k) b g = Some ((b', c), g')"
  shows "b' = b \<or> b' = b\<lparr>paused := \<not> paused b\<rparr> \<or> b' = backspace b \<or>
        (\<exists>r. matchWordB (b\<lparr>input := input b @ k\<rparr>) g = Some (b', r))"
proof -
  have "UpdateB (KeyMsg k) b g \<in>
          {Some ((b, Quit), g), Some ((b, NoCmd), g), Some ((b, Quit), g),
           Some ((b, ClearScreen), g), Some ((b\<lparr>paused := \<not> paused b\<rparr>, NoCmd), g),
           Some ((backspace b, NoCmd), g),
           (case matchWordB (b\<lparr>input := input b @ k\<rparr>) g of
              None \<Rightarrow> None | Some (m', g') \<Rightarrow> Some ((m', NoCmd), g')),
           Some ((b, NoCmd), g)}"
    unfolding UpdateB.simps by (rule if_chain)
  with assms show ?thesis by (auto split: option.splits)
qed

lemma UpdateA_playable:
  assumes "playable a" "UpdateA e a g = Some ((a', c), g')"
  shows "playable a'"
proof (cases e)
  case (KeyMsg k)
  have "playable (a\<lparr>paused := \<not> paused a\<rparr>)" using assms(1) by (simp add: playable_def)
  moreover have "playable (backspace a)" using assms(1) by (simp add: backspace_eq playable_def)
  moreover have "playable (matchWordA (a\<lparr>input := input a @ k\<rparr>))"
    using assms(1) by (intro matchWordA_playable) (simp add: input_playable)
  ultimately show ?thesis using assms(1) UpdateA_key_cases[of k a g a' c g'] assms(2) KeyMsg by blast
next
  case TickMsg
  show ?thesis
  proof (cases "\<not> paused a \<and> \<not> gameOver a")
    case True
    then obtain r where r: "maybeAddWordA (moveWords a) g = Some (a', r)"
      using assms TickMsg by (auto split: option.splits)
    have p: "playable (moveWords a)" and o: "\<forall>v\<in>set (map w_y (words (moveWords a))). 1 \<le> v"
      using moveWords_playable[OF assms(1)] True by blast+
    from maybeAddWordA_result[OF r] show ?thesis
    proof (elim disjE exE conjE)
      assume "a' = moveWords a"
      then show ?thesis using p by simp
    next
      fix w assume "a' = (moveWords a)\<lparr>words := words (moveWords a) @ [w]\<rparr>" "w_y w = 0"
      then show ?thesis using append_playable[OF p o, of w] by simp
    qed
  next
    case False
    then have "a' = a" using assms TickMsg by auto
    then show ?thesis using assms by simp
  qed
next
  case (WindowSizeMsg w h)
  then have "a' = a\<lparr>width := w, height := h\<rparr>" using assms by auto
  then show ?thesis using assms(1) by (simp add: playable_def)
next
  case OtherMsg
  then have "a' = a" using assms by simp
  then show ?thesis using assms by simp
qed

lemma UpdateB_playable:
  assumes "playable b" "UpdateB e b g = Some ((b', c), g')"
  shows "playable b'"
proof (cases e)
  case (KeyMsg k)
  have "playable (b\<lparr>paused := \<not> paused b\<rparr>)" using assms(1) by (simp add: playable_def)
  moreover have "playable (backspace b)" using assms(1) by (simp add: backspace_eq playable_def)
  moreover have "\<And>r. matchWordB (b\<lparr>input := input b @ k\<rparr>) g = Some (b', r) \<Longrightarrow> playable b'"
    using assms(1) by (elim matchWordB_playable[rotated]) (simp add: input_playable)
  ultimately show ?thesis using assms(1) UpdateB_key_cases[of k b g b' c g'] assms(2) KeyMsg by blast
next
  case TickMsg
  show ?thesis
  proof (cases "\<not> paused b \<and> \<not> gameOver b")
    case True
    define mw where "mw = moveWords b"
    obtain es where es: "updateEffects mw = mw\<lparr>effects := es\<rparr>"
      using updateEffects_frame by blast
    obtain r where r: "maybeAddWordB (mw\<lparr>effects := es\<rparr>) g = Some (b', r)"
      using assms TickMsg True es by (auto simp: mw_def split: option.splits)
    have p: "playable (mw\<lparr>effects := es\<rparr>)"
      and o: "\<forall>v\<in>set (map w_y (words (mw\<lparr>effects := es\<rparr>))). 1 \<le> v"
      using moveWords_playable[OF assms(1)] True by (simp_all add: effects_playable mw_def)
    from maybeAddWordB_result[OF r] show ?thesis
    proof (elim disjE exE conjE)
      assume "b' = mw\<lparr>effects := es\<rparr>"
      then show ?thesis using p by simp
    next
      fix w assume "b' = (mw\<lparr>effects := es\<rparr>)\<lparr>words := words (mw\<lparr>effects := es\<rparr>) @ [w]\<rparr>" "w_y w = 0"
      then show ?thesis using append_playable[OF p o, of w] by simp
    qed
  next
    case False
    then have "b' = b" using assms TickMsg by auto
    then show ?thesis using assms by simp
  qed
next
  case (WindowSizeMsg w h)
  then have "b' = b\<lparr>width := w, height := h\<rparr>" using assms by auto
  then show ?thesis using assms(1) by (simp add: playable_def)
next
  case OtherMsg
  then have "b' = b" using assms by simp
  then show ?thesis using assms by simp
qed

lemma reachableA_playable: "reachableA m \<Longrightarrow> playable m"
proof (induction rule: reachableA.induct)
  case (initA d now)
  show ?case by (simp add: playable_def initialModelA_def)
next
  case (stepA m e g m' c g')
  then show ?case using UpdateA_playable by blast
qed

lemma reachableB_playable: "reachableB m \<Longrightarrow> playable m"
proof (induction rule: reachableB.induct)
  case (initB d now)
  show ?case by (simp add: playable_def initialModelB_def)
next
  case (stepB m e g m' c g')
  then show ?case using UpdateB_playable by blast
qed

lemma runA_reachable: "reachableA m \<Longrightarrow> runA es m g = Some (m', g') \<Longrightarrow> reachableA m'"
proof (induction es arbitrary: m g)
  case Nil
  then show ?case by simp
next
  case (Cons e es)
  from Cons.prems(2) obtain m1 c g1 where
    u: "UpdateA e m g = Some ((m1, c), g1)" and r: "runA es m1 g1 = Some (m', g')"
    by (auto split: option.splits)
  from Cons.prems(1) u have "reachableA m1" by (rule reachableA.stepA)
  then show ?case using r by (rule Cons.IH)
qed

lemma runB_reachable: "reachableB m \<Longrightarrow> runB es m g = Some (m', g') \<Longrightarrow> reachableB m'"
proof (induction es arbitrary: m g)
  case Nil
  then show ?case by simp
next
  case (Cons e es)
  from Cons.prems(2) obtain m1 c g1 where
    u: "UpdateB e m g = Some ((m1, c), g1)" and r: "runB es m1 g1 = Some (m', g')"
    by (auto split: option.splits)
  from Cons.prems(1) u have "reachableB m1" by (rule reachableB.stepB)
  then show ?case using r by (rule Cons.IH)
qed

lemma ticks23:
  "replicate 23 TickMsg =
     [TickMsg, TickMsg, TickMsg, TickMsg, TickMsg, TickMsg,
      TickMsg, TickMsg, TickMsg, TickMsg, TickMsg, TickMsg,
      TickMsg, TickMsg, TickMsg, TickMsg, TickMsg, TickMsg,
      TickMsg, TickMsg, TickMsg, TickMsg, TickMsg]"
  by (simp add: eval_nat_numeral)

subsection \<open>The dictionary loaders\<close>

lemma loadLoopA_char:
  "loadLoopA ls ws = ws @ map ToLower (filter (\<lambda>w. length w > 0) (map TrimSpace ls))"
  by (induction ls arbitrary: ws) (simp_all add: Let_def)

lemma loadLoopB_char:
  "loadLoopB ls ws =
     ws @ map ToLower (filter (\<lambda>w. 1 \<le> length w \<and> length w \<le> 12) (map TrimSpace ls))"
  by (induction ls arbitrary: ws) (simp_all add: Let_def)

lemma asciiTrimSpace_subset: "set (asciiTrimSpace s) \<subseteq> set s"
proof -
  have "set (dropWhile isSpace (rev (dropWhile isSpace s))) \<subseteq> set (rev (dropWhile isSpace s))"
    by (auto dest: set_dropWhileD)
  moreover have "set (dropWhile isSpace s) \<subseteq> set s" by (auto dest: set_dropWhileD)
  ultimately show ?thesis by (auto simp: asciiTrimSpace_def)
qed

lemma isASCII_trim: "isASCII s \<Longrightarrow> isASCII (asciiTrimSpace s)"
  using asciiTrimSpace_subset[of s] by (auto simp: isASCII_def list_all_iff)

lemma load_ascii:
  assumes "list_all isASCII ls"
  shows "map ToLower (filter P (map TrimSpace ls)) =
         map asciiToLower (filter P (map asciiTrimSpace ls))"
  using assms by (induction ls) (simp_all add: TrimSpace_ascii ToLower_ascii isASCII_trim)

lemma loadDictionaryA_char:
  "loadDictionaryA NoFile = ([], Some OpenError)"
  "loadDictionaryA (File ls e) =
     (map ToLower (filter (\<lambda>w. 0 < length w) (map TrimSpace ls)), e)"
  by (simp_all add: loadDictionaryA_def loadLoopA_char)

lemma loadDictionaryB_char:
  "loadDictionaryB NoFile = ([], Some OpenError)"
  "loadDictionaryB (File ls e) =
     (map ToLower (filter (\<lambda>w. 1 \<le> length w \<and> length w \<le> 12) (map TrimSpace ls)), e)"
  by (simp_all add: loadDictionaryB_def loadLoopB_char)

lemma loadDictionaryA_ascii:
  "list_all isASCII ls \<Longrightarrow>
   loadDictionaryA (File ls e) =
     (map asciiToLower (filter (\<lambda>w. 0 < length w) (map asciiTrimSpace ls)), e)"
  by (simp add: loadDictionaryA_char load_ascii)

lemma loadDictionaryB_ascii:
  "list_all isASCII ls \<Longrightarrow>
   loadDictionaryB (File ls e) =
     (map asciiToLower (filter (\<lambda>w. 1 \<le> length w \<and> length w \<le> 12) (map asciiTrimSpace ls)), e)"
  by (simp add: loadDictionaryB_char load_ascii)

text \<open>On ASCII lines: what every entry of the loaded list looks like.\<close>

lemma asciiTrimSpace_ends:
  assumes "asciiTrimSpace s \<noteq> []"
  shows "\<not> isSpace (hd (asciiTrimSpace s))" "\<not> isSpace (last (asciiTrimSpace s))"
proof -
  define t where "t = dropWhile isSpace s"
  define r where "r = dropWhile isSpace (rev t)"
  have res: "asciiTrimSpace s = rev r" by (simp add: asciiTrimSpace_def r_def t_def)
  have r: "r \<noteq> []" using assms res by simp
  then have hr: "\<not> isSpace (hd r)" unfolding r_def by (rule hd_dropWhile)
  have t: "t \<noteq> []" using r by (auto simp: r_def)
  then have ht: "\<not> isSpace (hd t)" unfolding t_def by (rule hd_dropWhile)
  obtain p where p: "rev t = p @ r" unfolding r_def
    by (metis takeWhile_dropWhile_id)
  have "last r = last (rev t)" using r p by simp
  also have "\<dots> = hd t" using t by (simp add: last_rev)
  finally have lr: "last r = hd t" .
  show "\<not> isSpace (hd (asciiTrimSpace s))" using r ht lr by (simp add: res hd_rev)
  show "\<not> isSpace (last (asciiTrimSpace s))" using r hr by (simp add: res last_rev)
qed

lemma toLowerChar_code:
  "(of_char (toLowerChar c) :: nat) =
     (if 65 \<le> (of_char c :: nat) \<and> (of_char c :: nat) \<le> 90 then of_char c + 32 else of_char c)"
  by (simp add: toLowerChar_def)

lemma toLowerChar_lower:
  "\<not> (65 \<le> (of_char (toLowerChar c) :: nat) \<and> (of_char (toLowerChar c) :: nat) \<le> 90)"
  unfolding toLowerChar_code by auto

lemma isSpace_code: "isSpace c = ((of_char c :: nat) \<in> {9, 10, 11, 12, 13, 32})"
proof -
  have e: "\<And>d. (c = d) = ((of_char c :: nat) = of_char d)" by auto
  show ?thesis unfolding isSpace_def
    by (simp add: e[of "CHR 0x09"] e[of "CHR 0x0A"] e[of "CHR 0x0B"] e[of "CHR 0x0C"]
          e[of "CHR 0x0D"] e[of "CHR '' ''"])
qed

lemma isSpace_toLowerChar: "isSpace (toLowerChar c) = isSpace c"
  unfolding isSpace_code toLowerChar_code by auto

lemma asciiToLower_props:
  assumes "w \<noteq> []"
  shows "asciiToLower w \<noteq> []" "length (asciiToLower w) = length w"
    "isSpace (hd (asciiToLower w)) = isSpace (hd w)"
    "isSpace (last (asciiToLower w)) = isSpace (last w)"
    "\<forall>c\<in>set (asciiToLower w). \<not> (65 \<le> (of_char c :: nat) \<and> (of_char c :: nat) \<le> 90)"
proof -
  show "asciiToLower w \<noteq> []" "length (asciiToLower w) = length w"
    "isSpace (hd (asciiToLower w)) = isSpace (hd w)"
    "isSpace (last (asciiToLower w)) = isSpace (last w)"
    using assms by (simp_all add: asciiToLower_def hd_map last_map isSpace_toLowerChar)
  show "\<forall>c\<in>set (asciiToLower w). \<not> (65 \<le> (of_char c :: nat) \<and> (of_char c :: nat) \<le> 90)"
    using toLowerChar_lower by (auto simp: asciiToLower_def)
qed

lemma loaded_entry_ascii:
  assumes "list_all isASCII ls"
    and "w \<in> set (map asciiToLower (filter P (map asciiTrimSpace ls)))"
    and "\<And>v. P v \<Longrightarrow> v \<noteq> []"
  shows "w \<noteq> [] \<and> \<not> isSpace (hd w) \<and> \<not> isSpace (last w) \<and>
         (\<forall>c\<in>set w. \<not> (65 \<le> (of_char c :: nat) \<and> (of_char c :: nat) \<le> 90)) \<and>
         (\<exists>l\<in>set ls. w = asciiToLower (asciiTrimSpace l) \<and> P (asciiTrimSpace l))"
proof -
  from assms(2) obtain l where l: "l \<in> set ls" "P (asciiTrimSpace l)" "w = asciiToLower (asciiTrimSpace l)"
    by auto
  have ne: "asciiTrimSpace l \<noteq> []" using l(2) by (rule assms(3))
  show ?thesis
    using asciiToLower_props[OF ne] asciiTrimSpace_ends[OF ne] l by auto
qed

lemma loadDictionaryA_entries:
  assumes "list_all isASCII ls" "w \<in> set (fst (loadDictionaryA (File ls e)))"
  shows "w \<noteq> [] \<and> \<not> isSpace (hd w) \<and> \<not> isSpace (last w) \<and>
         (\<forall>c\<in>set w. \<not> (65 \<le> (of_char c :: nat) \<and> (of_char c :: nat) \<le> 90))"
proof -
  have "w \<in> set (map asciiToLower (filter (\<lambda>w. 0 < length w) (map asciiTrimSpace ls)))"
    using assms(2) by (simp add: loadDictionaryA_ascii[OF assms(1)])
  from loaded_entry_ascii[OF assms(1) this] show ?thesis by blast
qed

lemma loadDictionaryB_entries:
  assumes "list_all isASCII ls" "w \<in> set (fst (loadDictionaryB (File ls e)))"
  shows "1 \<le> length w \<and> length w \<le> 12 \<and> \<not> isSpace (hd w) \<and> \<not> isSpace (last w) \<and>
         (\<forall>c\<in>set w. \<not> (65 \<le> (of_char c :: nat) \<and> (of_char c :: nat) \<le> 90))"
proof -
  have "w \<in> set (map asciiToLower (filter (\<lambda>w. 1 \<le> length w \<and> length w \<le> 12) (map asciiTrimSpace ls)))"
    using assms(2) by (simp add: loadDictionaryB_ascii[OF assms(1)])
  from loaded_entry_ascii[OF assms(1) this]
  obtain l where p: "w \<noteq> []" "\<not> isSpace (hd w)" "\<not> isSpace (last w)"
      "\<forall>c\<in>set w. \<not> (65 \<le> (of_char c :: nat) \<and> (of_char c :: nat) \<le> 90)"
      "w = asciiToLower (asciiTrimSpace l)"
      "1 \<le> length (asciiTrimSpace l) \<and> length (asciiTrimSpace l) \<le> 12"
    by fastforce
  have "length w = length (asciiTrimSpace l)" by (simp add: p(5) asciiToLower_def)
  then show ?thesis using p by simp
qed

section \<open>The claims\<close>

subsection \<open>Hits\<close>

text \<open>
  C1 (amended). A letter keystroke is a hit when the first word, in list order, that has
  the new input buffer as a prefix is equal to the buffer. Then the score grows by the
  length of that word times level + 1, wordsTyped grows by 1, exactly that word leaves
  the list and the buffer is empty. In variant A the letter \<open>q\<close> quits instead.
\<close>

theorem hit_on_first_match:
  "(\<not> gameOver a \<and> isLetter k \<and> k \<noteq> ''q'' \<and> j < length (words a) \<and>
    w_text (words a ! j) = input a @ k \<and>
    (\<forall>i<j. \<not> prefix (input a @ k) (w_text (words a ! i))) \<longrightarrow>
      (\<exists>m'. UpdateA (KeyMsg k) a g = Some ((m', NoCmd), g) \<and>
         score m' = score a + int (length (w_text (words a ! j))) * (level a + 1) \<and>
         wordsTyped m' = wordsTyped a + 1 \<and>
         words m' = take j (words a) @ drop (Suc j) (words a) \<and>
         input m' = [])) \<and>
   (\<not> gameOver b \<and> isLetter k \<and> j < length (words b) \<and>
    w_text (words b ! j) = input b @ k \<and>
    (\<forall>i<j. \<not> prefix (input b @ k) (w_text (words b ! i))) \<longrightarrow>
      (\<exists>m' h'. UpdateB (KeyMsg k) b h = Some ((m', NoCmd), h') \<and>
         score m' = score b + int (length (w_text (words b ! j))) * (level b + 1) \<and>
         wordsTyped m' = wordsTyped b + 1 \<and>
         words m' = take j (words b) @ drop (Suc j) (words b) \<and>
         input m' = []))"
proof (intro conjI impI)
  assume h: "\<not> gameOver a \<and> isLetter k \<and> k \<noteq> ''q'' \<and> j < length (words a) \<and>
    w_text (words a ! j) = input a @ k \<and>
    (\<forall>i<j. \<not> prefix (input a @ k) (w_text (words a ! i)))"
  then have "UpdateA (KeyMsg k) a g = Some ((hitAt j (a\<lparr>input := input a @ k\<rparr>), NoCmd), g)"
    by (intro hitA) simp_all
  then show "\<exists>m'. UpdateA (KeyMsg k) a g = Some ((m', NoCmd), g) \<and>
         score m' = score a + int (length (w_text (words a ! j))) * (level a + 1) \<and>
         wordsTyped m' = wordsTyped a + 1 \<and>
         words m' = take j (words a) @ drop (Suc j) (words a) \<and>
         input m' = []"
    by (simp add: hitAt_def)
next
  assume h: "\<not> gameOver b \<and> isLetter k \<and> j < length (words b) \<and>
    w_text (words b ! j) = input b @ k \<and>
    (\<forall>i<j. \<not> prefix (input b @ k) (w_text (words b ! i)))"
  then have "UpdateB (KeyMsg k) b h =
     Some ((hitAtB j (b\<lparr>input := input b @ k\<rparr>) h, NoCmd),
           sdrop (3 * nat (8 + int (length (input b @ k)) * 2)) h)"
    by (intro hitB) simp_all
  then show "\<exists>m' h'. UpdateB (KeyMsg k) b h = Some ((m', NoCmd), h') \<and>
         score m' = score b + int (length (w_text (words b ! j))) * (level b + 1) \<and>
         wordsTyped m' = wordsTyped b + 1 \<and>
         words m' = take j (words b) @ drop (Suc j) (words b) \<and>
         input m' = []"
    by (simp add: hitAtB_def hitAt_def)
qed

theorem hit_on_first_match_witness:
  "(\<exists>m'. UpdateA (KeyMsg ''t'') ((initialModelA [''cat'', ''dog''] 0)\<lparr>words := [dog20, cat7], input := ''ca''\<rparr>) (sconst 0)
            = Some ((m', NoCmd), sconst 0) \<and>
          score m' = 6 \<and> wordsTyped m' = 1 \<and> words m' = [dog20] \<and> input m' = []) \<and>
   (\<exists>m' h'. UpdateB (KeyMsg ''t'') ((initialModelB [''cat'', ''dog''] 0)\<lparr>words := [dog20, cat7], input := ''ca''\<rparr>) (sconst 0)
            = Some ((m', NoCmd), h') \<and>
          score m' = 6 \<and> wordsTyped m' = 1 \<and> words m' = [dog20] \<and> input m' = [])"
  using hit_on_first_match[of "(initialModelA [''cat'', ''dog''] 0)\<lparr>words := [dog20, cat7], input := ''ca''\<rparr>"
          "''t''" 1 "sconst 0" "(initialModelB [''cat'', ''dog''] 0)\<lparr>words := [dog20, cat7], input := ''ca''\<rparr>" "sconst 0"]
  by (simp add: initialModelA_def initialModelB_def dog20_def cat7_def isLetter_def)

text \<open>
  C1 as stated fails: with the words \<open>cattle\<close> and \<open>cat\<close> falling, in this order, the
  keystrokes \<open>c\<close>, \<open>a\<close>, \<open>t\<close> leave the buffer equal to the text of the second word, and
  yet nothing is scored and nothing removed, because the scan stops at \<open>cattle\<close>. The
  state is reached from the initial one by two ticks.
\<close>

theorem hit_counterexample:
  "runA [TickMsg, TickMsg, KeyMsg ''c'', KeyMsg ''a'', KeyMsg ''t'']
        (initialModelA [''cattle'', ''cat''] 0) (0 ## 0 ## 0 ## 0 ## 1 ## sconst 0)
     = Some ((initialModelA [''cattle'', ''cat''] 0)
               \<lparr>words := [\<lparr>w_text = ''cattle'', w_x = 0, w_y = 1, w_matched = 3\<rparr>,
                          \<lparr>w_text = ''cat'', w_x = 0, w_y = 0, w_matched = 0\<rparr>],
                current := Some 0, input := ''cat''\<rparr>, sconst 0) \<and>
   runB [TickMsg, TickMsg, KeyMsg ''c'', KeyMsg ''a'', KeyMsg ''t'']
        (initialModelB [''cattle'', ''cat''] 0) (0 ## 0 ## 0 ## 1 ## sconst 0)
     = Some ((initialModelB [''cattle'', ''cat''] 0)
               \<lparr>words := [\<lparr>w_text = ''cattle'', w_x = 0, w_y = 1, w_matched = 3\<rparr>,
                          \<lparr>w_text = ''cat'', w_x = 0, w_y = 0, w_matched = 0\<rparr>],
                current := Some 0, input := ''cat''\<rparr>, sconst 0)"
  by (simp add: run_simps)

subsection \<open>Lives and game over\<close>

text \<open>
  C2 (amended). In every reachable state lives is not negative and the game-over flag
  is set exactly when lives is 0; in particular a tick that brings lives to 0 ends with
  the flag set. From then on a tick changes nothing. (The tick that sets the flag still
  runs to its end: see the counterexample.)
\<close>

theorem lives_and_game_over:
  "(reachableA a \<longrightarrow> 0 \<le> lives a \<and> (gameOver a \<longleftrightarrow> lives a = 0)) \<and>
   (reachableA a \<and> UpdateA TickMsg a g = Some ((a', c), g') \<and> lives a' = 0 \<longrightarrow> gameOver a') \<and>
   (gameOver a \<longrightarrow> UpdateA TickMsg a g = Some ((a, TickCmd), g)) \<and>
   (reachableB b \<longrightarrow> 0 \<le> lives b \<and> (gameOver b \<longleftrightarrow> lives b = 0)) \<and>
   (reachableB b \<and> UpdateB TickMsg b h = Some ((b', c), h') \<and> lives b' = 0 \<longrightarrow> gameOver b') \<and>
   (gameOver b \<longrightarrow> UpdateB TickMsg b h = Some ((b, TickCmd), h))"
proof -
  have 1: "reachableA a \<longrightarrow> 0 \<le> lives a \<and> (gameOver a \<longleftrightarrow> lives a = 0)"
    using reachableA_playable[of a] by (simp add: playable_def)
  have 2: "reachableB b \<longrightarrow> 0 \<le> lives b \<and> (gameOver b \<longleftrightarrow> lives b = 0)"
    using reachableB_playable[of b] by (simp add: playable_def)
  have 3: "gameOver a \<longrightarrow> UpdateA TickMsg a g = Some ((a, TickCmd), g)" by simp
  have 4: "gameOver b \<longrightarrow> UpdateB TickMsg b h = Some ((b, TickCmd), h)" by simp
  have 5: "reachableA a \<and> UpdateA TickMsg a g = Some ((a', c), g') \<and> lives a' = 0 \<longrightarrow> gameOver a'"
    using reachableA_playable[of a'] reachableA.stepA[of a TickMsg g a' c g']
    by (auto simp add: playable_def)
  have 6: "reachableB b \<and> UpdateB TickMsg b h = Some ((b', c), h') \<and> lives b' = 0 \<longrightarrow> gameOver b'"
    using reachableB_playable[of b'] reachableB.stepB[of b TickMsg h b' c h']
    by (auto simp add: playable_def)
  from 1 2 3 4 5 6 show ?thesis by blast
qed

theorem lives_and_game_over_witness:
  "(case runA (replicate 23 TickMsg) (initialModelA [''a''] 0) (sconst 0) of
      None \<Rightarrow> False
    | Some (s, g) \<Rightarrow>
        0 \<le> lives s \<and> \<not> gameOver s \<and>
        (case UpdateA TickMsg s g of
           None \<Rightarrow> False
         | Some ((s', c), g') \<Rightarrow>
             lives s' = 0 \<and> gameOver s' \<and> UpdateA TickMsg s' g' = Some ((s', TickCmd), g'))) \<and>
   (case runB (replicate 23 TickMsg) (initialModelB [''a''] 0) (sconst 0) of
      None \<Rightarrow> False
    | Some (s, g) \<Rightarrow>
        0 \<le> lives s \<and> \<not> gameOver s \<and>
        (case UpdateB TickMsg s g of
           None \<Rightarrow> False
         | Some ((s', c), g') \<Rightarrow>
             lives s' = 0 \<and> gameOver s' \<and> UpdateB TickMsg s' g' = Some ((s', TickCmd), g')))"
proof -
  have "\<exists>s g s' c g'. runA (replicate 23 TickMsg) (initialModelA [''a''] 0) (sconst 0) = Some (s, g) \<and>
          lives s = 1 \<and> UpdateA TickMsg s g = Some ((s', c), g') \<and> lives s' = 0"
    unfolding ticks23 by (simp add: run_simps)
  then obtain s g s' c g' where
    ra: "runA (replicate 23 TickMsg) (initialModelA [''a''] 0) (sconst 0) = Some (s, g)"
    and la: "lives s = 1" and ua: "UpdateA TickMsg s g = Some ((s', c), g')" and la': "lives s' = 0"
    by blast
  have "\<exists>t h t' d h'. runB (replicate 23 TickMsg) (initialModelB [''a''] 0) (sconst 0) = Some (t, h) \<and>
          lives t = 1 \<and> UpdateB TickMsg t h = Some ((t', d), h') \<and> lives t' = 0"
    unfolding ticks23 by (simp add: run_simps)
  then obtain t h t' d h' where
    rb: "runB (replicate 23 TickMsg) (initialModelB [''a''] 0) (sconst 0) = Some (t, h)"
    and lb: "lives t = 1" and ub: "UpdateB TickMsg t h = Some ((t', d), h')" and lb': "lives t' = 0"
    by blast
  have reach_s: "reachableA s"
    using reachableA.initA[of "[''a'']" 0] ra by (rule runA_reachable) simp
  have reach_t: "reachableB t"
    using reachableB.initB[of "[''a'']" 0] rb by (rule runB_reachable) simp
  from lives_and_game_over[of s g s' c g' t h t' h'] reach_s ua la la'
  have fa: "0 \<le> lives s \<and> \<not> gameOver s \<and> gameOver s'"
    by simp
  from lives_and_game_over[of s g s' d g' t h t' h'] reach_t ub lb lb'
  have fb: "0 \<le> lives t \<and> \<not> gameOver t \<and> gameOver t'"
    by simp
  from fa fb
  have f1: "0 \<le> lives s \<and> \<not> gameOver s \<and> gameOver s' \<and> 0 \<le> lives t \<and> \<not> gameOver t \<and> gameOver t'"
    by simp
  from lives_and_game_over[of s' g' s' c g' t' h' t' h'] f1
  have f2: "UpdateA TickMsg s' g' = Some ((s', TickCmd), g') \<and> UpdateB TickMsg t' h' = Some ((t', TickCmd), h')"
    by blast
  show ?thesis using ra rb ua ub la' lb' f1 f2 by simp
qed

text \<open>
  C2 as stated fails: the tick on which lives reaches 0 is not cut short. After 23 ticks
  from the initial state one life is left and the oldest word is on the last row; in
  the next tick the descent takes the last life and sets the flag, and the spawn
  decision of that same tick still appends a new word at row 0 (the last word of the
  state after 24 ticks).
\<close>

theorem gameover_tick_counterexample:
  "runA (replicate 23 TickMsg) (initialModelA [''a''] 0) (sconst 0)
     = Some ((initialModelA [''a''] 0)
               \<lparr>words := map aw [20, 19, 18, 17, 16, 15, 14, 13, 1, 0], lives := 1\<rparr>, sconst 0) \<and>
   moveWords ((initialModelA [''a''] 0)
               \<lparr>words := map aw [20, 19, 18, 17, 16, 15, 14, 13, 1, 0], lives := 1\<rparr>)
     = (initialModelA [''a''] 0)
               \<lparr>words := map aw [20, 19, 18, 17, 16, 15, 14, 2, 1], lives := 0, gameOver := True\<rparr> \<and>
   runA (replicate 24 TickMsg) (initialModelA [''a''] 0) (sconst 0)
     = Some ((initialModelA [''a''] 0)
               \<lparr>words := map aw [20, 19, 18, 17, 16, 15, 14, 2, 1, 0], lives := 0, gameOver := True\<rparr>,
             sconst 0) \<and>
   runB (replicate 23 TickMsg) (initialModelB [''a''] 0) (sconst 0)
     = Some ((initialModelB [''a''] 0)
               \<lparr>words := map aw [20, 19, 18, 17, 16, 15, 1, 0], lives := 1\<rparr>, sconst 0) \<and>
   moveWords ((initialModelB [''a''] 0)
               \<lparr>words := map aw [20, 19, 18, 17, 16, 15, 1, 0], lives := 1\<rparr>)
     = (initialModelB [''a''] 0)
               \<lparr>words := map aw [20, 19, 18, 17, 16, 2, 1], lives := 0, gameOver := True\<rparr> \<and>
   runB (replicate 24 TickMsg) (initialModelB [''a''] 0) (sconst 0)
     = Some ((initialModelB [''a''] 0)
               \<lparr>words := map aw [20, 19, 18, 17, 16, 2, 1, 0], lives := 0, gameOver := True\<rparr>,
             sconst 0)"
proof -
  have t24: "replicate 24 TickMsg = TickMsg # replicate 23 TickMsg"
    by (simp add: eval_nat_numeral)
  show ?thesis unfolding t24 ticks23 by (simp add: run_simps aw_def)
qed

subsection \<open>Descent\<close>

text \<open>
  C3. On a tick in the playing state every word's row grows by exactly 1, the words whose
  new row is at least the playable height are removed, lives drops by one for each of
  them, and no word is skipped or duplicated.
\<close>

theorem tick_descent:
  "(\<not> paused a \<and> \<not> gameOver a \<and> dict a \<noteq> [] \<longrightarrow>
      (\<exists>m' g' new. UpdateA TickMsg a g = Some ((m', TickCmd), g') \<and>
         words m' = filter (\<lambda>w. w_y w < gameHeight) (map (\<lambda>w. w\<lparr>w_y := w_y w + 1\<rparr>) (words a)) @ new \<and>
         length new \<le> 1 \<and> (\<forall>w\<in>set new. w_y w = 0) \<and>
         lives m' = lives a - int (length (filter (\<lambda>w. w_y w + 1 \<ge> gameHeight) (words a))))) \<and>
   (\<not> paused b \<and> \<not> gameOver b \<and> dict b \<noteq> [] \<longrightarrow>
      (\<exists>m' g' new. UpdateB TickMsg b h = Some ((m', TickCmd), g') \<and>
         words m' = filter (\<lambda>w. w_y w < gameHeight) (map (\<lambda>w. w\<lparr>w_y := w_y w + 1\<rparr>) (words b)) @ new \<and>
         length new \<le> 1 \<and> (\<forall>w\<in>set new. w_y w = 0) \<and>
         lives m' = lives b - int (length (filter (\<lambda>w. w_y w + 1 \<ge> gameHeight) (words b)))))"
  using tickA_descent[of a g] tickB_descent[of b h] by blast

theorem tick_descent_witness:
  "(\<exists>m' g' new. UpdateA TickMsg ((initialModelA [''cat'', ''dog''] 0)\<lparr>words := [dog20, cat7]\<rparr>) (sconst 0) = Some ((m', TickCmd), g') \<and>
         words m' = [cat7\<lparr>w_y := 8\<rparr>] @ new \<and> lives m' = 2) \<and>
   (\<exists>m' g' new. UpdateB TickMsg ((initialModelB [''cat'', ''dog''] 0)\<lparr>words := [dog20, cat7]\<rparr>) (sconst 0) = Some ((m', TickCmd), g') \<and>
         words m' = [cat7\<lparr>w_y := 8\<rparr>] @ new \<and> lives m' = 2)"
  using tick_descent[of "(initialModelA [''cat'', ''dog''] 0)\<lparr>words := [dog20, cat7]\<rparr>" "sconst 0"
                        "(initialModelB [''cat'', ''dog''] 0)\<lparr>words := [dog20, cat7]\<rparr>" "sconst 0"]
  by (simp add: initialModelA_def initialModelB_def dog20_def cat7_def gameHeight_def screenHeight_def statusHeight_def) blast

subsection \<open>Misses\<close>

text \<open>
  C4 (amended). A letter keystroke after which no word has the input buffer as a prefix
  clears the buffer and the current-word reference and changes nothing else: the score
  and the words stay as they were, and so does the matched length recorded on each word.
\<close>

theorem miss_clears_input:
  "(\<not> gameOver a \<and> isLetter k \<and> k \<noteq> ''q'' \<and>
    (\<forall>w\<in>set (words a). \<not> prefix (input a @ k) (w_text w)) \<longrightarrow>
      UpdateA (KeyMsg k) a g = Some ((a\<lparr>input := [], current := None\<rparr>, NoCmd), g)) \<and>
   (\<not> gameOver b \<and> isLetter k \<and>
    (\<forall>w\<in>set (words b). \<not> prefix (input b @ k) (w_text w)) \<longrightarrow>
      UpdateB (KeyMsg k) b h = Some ((b\<lparr>input := [], current := None\<rparr>, NoCmd), h))"
  using missA[of a k g] missB[of b k h] by blast

theorem miss_clears_input_witness:
  "UpdateA (KeyMsg ''x'') ((initialModelA [''cat'', ''dog''] 0)\<lparr>words := [dog20, cat7], input := ''ca'', current := Some 1\<rparr>) (sconst 0)
     = Some (((initialModelA [''cat'', ''dog''] 0)\<lparr>words := [dog20, cat7]\<rparr>, NoCmd), sconst 0) \<and>
   UpdateB (KeyMsg ''x'') ((initialModelB [''cat'', ''dog''] 0)\<lparr>words := [dog20, cat7], input := ''ca'', current := Some 1\<rparr>) (sconst 0)
     = Some (((initialModelB [''cat'', ''dog''] 0)\<lparr>words := [dog20, cat7]\<rparr>, NoCmd), sconst 0)"
  using miss_clears_input[of "(initialModelA [''cat'', ''dog''] 0)\<lparr>words := [dog20, cat7], input := ''ca'', current := Some 1\<rparr>"
          "''x''" "sconst 0" "(initialModelB [''cat'', ''dog''] 0)\<lparr>words := [dog20, cat7], input := ''ca'', current := Some 1\<rparr>" "sconst 0"]
  by (simp add: initialModelA_def initialModelB_def dog20_def cat7_def isLetter_def)

text \<open>
  C4 as stated fails: after \<open>c\<close> has matched the word \<open>cat\<close>, the keystroke \<open>x\<close> is a miss; it
  clears the buffer and the current-word reference, and the matched length 1 recorded on
  the word is still there.
\<close>

theorem miss_counterexample:
  "runA [TickMsg, KeyMsg ''c''] (initialModelA [''cat''] 0) (sconst 0)
     = Some ((initialModelA [''cat''] 0)
               \<lparr>words := [\<lparr>w_text = ''cat'', w_x = 0, w_y = 0, w_matched = 1\<rparr>],
                current := Some 0, input := ''c''\<rparr>, sconst 0) \<and>
   runA [TickMsg, KeyMsg ''c'', KeyMsg ''x''] (initialModelA [''cat''] 0) (sconst 0)
     = Some ((initialModelA [''cat''] 0)
               \<lparr>words := [\<lparr>w_text = ''cat'', w_x = 0, w_y = 0, w_matched = 1\<rparr>]\<rparr>, sconst 0) \<and>
   runB [TickMsg, KeyMsg ''c''] (initialModelB [''cat''] 0) (sconst 0)
     = Some ((initialModelB [''cat''] 0)
               \<lparr>words := [\<lparr>w_text = ''cat'', w_x = 0, w_y = 0, w_matched = 1\<rparr>],
                current := Some 0, input := ''c''\<rparr>, sconst 0) \<and>
   runB [TickMsg, KeyMsg ''c'', KeyMsg ''x''] (initialModelB [''cat''] 0) (sconst 0)
     = Some ((initialModelB [''cat''] 0)
               \<lparr>words := [\<lparr>w_text = ''cat'', w_x = 0, w_y = 0, w_matched = 1\<rparr>]\<rparr>, sconst 0)"
  by (simp add: run_simps)

subsection \<open>The spawn decision\<close>




subsection \<open>Loading the dictionary\<close>

text \<open>
  C6 (amended). Both loaders trim each line with \<^verbatim>\<open>TrimSpace\<close>, keep the trimmed lines that
  pass the length test, in their order, and lowercase what they keep with \<^verbatim>\<open>ToLower\<close>; a
  file that cannot be opened gives no list and an error. The test of variant A is that
  the trimmed line is not empty, with no upper bound; that of variant B is a length of 1
  to 12 bytes. The result is a function of the lines read. On ASCII lines trimming
  removes the leading and trailing white space and lowercasing maps \<open>A\<close> to \<open>Z\<close> to \<open>a\<close> to
  \<open>z\<close>: every entry of the list is then non-empty, neither begins nor ends with white
  space and has no upper-case letter, and in variant B it has 1 to 12 bytes.
\<close>

theorem loader_filter:
  "loadDictionaryA NoFile = ([], Some OpenError) \<and>
   loadDictionaryA (File ls e) =
     (map ToLower (filter (\<lambda>w. 0 < length w) (map TrimSpace ls)), e) \<and>
   loadDictionaryB NoFile = ([], Some OpenError) \<and>
   loadDictionaryB (File ls e) =
     (map ToLower (filter (\<lambda>w. 1 \<le> length w \<and> length w \<le> 12) (map TrimSpace ls)), e) \<and>
   (list_all isASCII ls \<longrightarrow>
      loadDictionaryA (File ls e) =
        (map asciiToLower (filter (\<lambda>w. 0 < length w) (map asciiTrimSpace ls)), e) \<and>
      loadDictionaryB (File ls e) =
        (map asciiToLower (filter (\<lambda>w. 1 \<le> length w \<and> length w \<le> 12) (map asciiTrimSpace ls)), e) \<and>
      (\<forall>w\<in>set (fst (loadDictionaryA (File ls e))).
         w \<noteq> [] \<and> \<not> isSpace (hd w) \<and> \<not> isSpace (last w) \<and>
         (\<forall>c\<in>set w. \<not> (65 \<le> (of_char c :: nat) \<and> (of_char c :: nat) \<le> 90))) \<and>
      (\<forall>w\<in>set (fst (loadDictionaryB (File ls e))).
         1 \<le> length w \<and> length w \<le> 12 \<and> \<not> isSpace (hd w) \<and> \<not> isSpace (last w) \<and>
         (\<forall>c\<in>set w. \<not> (65 \<le> (of_char c :: nat) \<and> (of_char c :: nat) \<le> 90))))"
proof -
  have 1: "loadDictionaryA NoFile = ([], Some OpenError)"
    "loadDictionaryA (File ls e) =
       (map ToLower (filter (\<lambda>w. 0 < length w) (map TrimSpace ls)), e)"
    by (simp_all add: loadDictionaryA_char)
  have 2: "loadDictionaryB NoFile = ([], Some OpenError)"
    "loadDictionaryB (File ls e) =
       (map ToLower (filter (\<lambda>w. 1 \<le> length w \<and> length w \<le> 12) (map TrimSpace ls)), e)"
    by (simp_all add: loadDictionaryB_char)
  have 3: "list_all isASCII ls \<longrightarrow>
      loadDictionaryA (File ls e) =
        (map asciiToLower (filter (\<lambda>w. 0 < length w) (map asciiTrimSpace ls)), e) \<and>
      loadDictionaryB (File ls e) =
        (map asciiToLower (filter (\<lambda>w. 1 \<le> length w \<and> length w \<le> 12) (map asciiTrimSpace ls)), e)"
    using loadDictionaryA_ascii[of ls e] loadDictionaryB_ascii[of ls e] by blast
  have 4: "list_all isASCII ls \<longrightarrow>
      (\<forall>w\<in>set (fst (loadDictionaryA (File ls e))).
         w \<noteq> [] \<and> \<not> isSpace (hd w) \<and> \<not> isSpace (last w) \<and>
         (\<forall>c\<in>set w. \<not> (65 \<le> (of_char c :: nat) \<and> (of_char c :: nat) \<le> 90)))"
    using loadDictionaryA_entries[of ls _ e] by blast
  have 5: "list_all isASCII ls \<longrightarrow>
      (\<forall>w\<in>set (fst (loadDictionaryB (File ls e))).
         1 \<le> length w \<and> length w \<le> 12 \<and> \<not> isSpace (hd w) \<and> \<not> isSpace (last w) \<and>
         (\<forall>c\<in>set w. \<not> (65 \<le> (of_char c :: nat) \<and> (of_char c :: nat) \<le> 90)))"
    using loadDictionaryB_entries[of ls _ e] by blast
  from 1 2 3 4 5 show ?thesis by blast
qed

theorem loader_filter_witness:
  "loadDictionaryA (File sampleLines None) = ([''cat'', ''hello'', ''dog'', ''incomprehensible''], None) \<and>
   loadDictionaryB (File sampleLines None) = ([''cat'', ''hello'', ''dog''], None)"
proof -
  have asc: "list_all isASCII sampleLines" by code_simp
  have ra: "map asciiToLower (filter (\<lambda>w. 0 < length w) (map asciiTrimSpace sampleLines))
              = [''cat'', ''hello'', ''dog'', ''incomprehensible'']" by code_simp
  have rb: "map asciiToLower (filter (\<lambda>w. 1 \<le> length w \<and> length w \<le> 12) (map asciiTrimSpace sampleLines))
              = [''cat'', ''hello'', ''dog'']" by code_simp
  from loader_filter[of sampleLines None] asc
  have "loadDictionaryA (File sampleLines None) =
          (map asciiToLower (filter (\<lambda>w. 0 < length w) (map asciiTrimSpace sampleLines)), None) \<and>
        loadDictionaryB (File sampleLines None) =
          (map asciiToLower (filter (\<lambda>w. 1 \<le> length w \<and> length w \<le> 12) (map asciiTrimSpace sampleLines)), None)"
    by blast
  then show ?thesis unfolding ra rb .
qed

text \<open>
  C6 as stated fails: variant A has no filter of 1 to 3 characters. It keeps the
  five-letter line \<open>hello\<close>.
\<close>

theorem loader_counterexample:
  "loadDictionaryA (File [''hello''] None) = ([''hello''], None) \<and> length ''hello'' = 5"
proof -
  have asc: "list_all isASCII [''hello'']" by code_simp
  have r: "map asciiToLower (filter (\<lambda>w. 0 < length w) (map asciiTrimSpace [''hello''])) = [''hello'']"
    by code_simp
  show ?thesis using loadDictionaryA_ascii[OF asc, of None] unfolding r by simp
qed

subsection \<open>Explosions\<close>




subsection \<open>Paused and game over\<close>

text \<open>
  C8. Any number of consecutive ticks in a paused or game-over state leaves the whole
  state as it is (words, effects, score, level, lives, wordsTyped and the rest), and
  draws nothing from the random source. Once the game is over a key changes nothing
  either; only \<open>q\<close> and \<open>ctrl+c\<close> are answered, by the quit command.
\<close>

theorem paused_or_over_frozen:
  "(paused a \<or> gameOver a \<longrightarrow> runA (replicate n TickMsg) a g = Some (a, g)) \<and>
   (gameOver a \<longrightarrow>
      UpdateA (KeyMsg k) a g = Some ((a, if k = ''q'' \<or> k = ''ctrl+c'' then Quit else NoCmd), g)) \<and>
   (paused b \<or> gameOver b \<longrightarrow> runB (replicate n TickMsg) b h = Some (b, h)) \<and>
   (gameOver b \<longrightarrow>
      UpdateB (KeyMsg k) b h = Some ((b, if k = ''q'' \<or> k = ''ctrl+c'' then Quit else NoCmd), h))"
  using ticks_frozenA[of a n g] ticks_frozenB[of b n h] by simp

theorem paused_or_over_frozen_witness:
  "runA (replicate 3 TickMsg) ((initialModelA [''cat''] 0)\<lparr>words := [dog20, cat7], paused := True\<rparr>) (sconst 0)
     = Some ((initialModelA [''cat''] 0)\<lparr>words := [dog20, cat7], paused := True\<rparr>, sconst 0) \<and>
   runB (replicate 3 TickMsg) ((initialModelB [''cat''] 0)\<lparr>words := [dog20, cat7], paused := True\<rparr>) (sconst 0)
     = Some ((initialModelB [''cat''] 0)\<lparr>words := [dog20, cat7], paused := True\<rparr>, sconst 0) \<and>
   runA (replicate 3 TickMsg) ((initialModelA [''cat''] 0)\<lparr>words := [cat7], lives := 0, gameOver := True\<rparr>) (sconst 0)
     = Some ((initialModelA [''cat''] 0)\<lparr>words := [cat7], lives := 0, gameOver := True\<rparr>, sconst 0) \<and>
   UpdateA (KeyMsg ''c'') ((initialModelA [''cat''] 0)\<lparr>words := [cat7], lives := 0, gameOver := True\<rparr>) (sconst 0)
     = Some (((initialModelA [''cat''] 0)\<lparr>words := [cat7], lives := 0, gameOver := True\<rparr>, NoCmd), sconst 0) \<and>
   runB (replicate 3 TickMsg) ((initialModelB [''cat''] 0)\<lparr>words := [cat7], lives := 0, gameOver := True\<rparr>) (sconst 0)
     = Some ((initialModelB [''cat''] 0)\<lparr>words := [cat7], lives := 0, gameOver := True\<rparr>, sconst 0) \<and>
   UpdateB (KeyMsg ''c'') ((initialModelB [''cat''] 0)\<lparr>words := [cat7], lives := 0, gameOver := True\<rparr>) (sconst 0)
     = Some (((initialModelB [''cat''] 0)\<lparr>words := [cat7], lives := 0, gameOver := True\<rparr>, NoCmd), sconst 0)"
  using paused_or_over_frozen[of "(initialModelA [''cat''] 0)\<lparr>words := [dog20, cat7], paused := True\<rparr>" 3 "sconst 0"
          "''c''" "(initialModelB [''cat''] 0)\<lparr>words := [dog20, cat7], paused := True\<rparr>" "sconst 0"]
        paused_or_over_frozen[of "(initialModelA [''cat''] 0)\<lparr>words := [cat7], lives := 0, gameOver := True\<rparr>" 3 "sconst 0"
          "''c''" "(initialModelB [''cat''] 0)\<lparr>words := [cat7], lives := 0, gameOver := True\<rparr>" "sconst 0"]
  by (simp add: initialModelA_def initialModelB_def)

subsection \<open>Where a word is spawned\<close>

text \<open>
  C9 (amended). A word added by the spawn decision has a text of the dictionary, row 0
  and a column between 0 and \<open>max 0 (screenWidth - length text - 1)\<close>; so its column is
  never negative, and it ends within the grid whenever its text is no longer than the
  grid is wide (a longer word is put at column 0 and overhangs). The text is the entry
  at the index given by one draw, a \<^verbatim>\<open>rand.Intn(len(m.dict))\<close>, and the column is the
  next draw, a \<^verbatim>\<open>rand.Intn(maxX + 1)\<close>; they follow the draw of the spawn decision when
  one is taken, so both are spread uniformly as the library's draws are. No event
  changes the text or the column of a word. A tick in the playing state keeps every word as it is
  but for its row, which grows by 1, removes those that reach the playable height, and
  appends at most one new word, placed as said. Every other event either leaves the
  text, column and row of every word as they are or removes exactly one word and leaves
  the others untouched.
\<close>

theorem spawn_placement:
  "(maybeAddWordA a g = Some (a', g') \<longrightarrow>
      words a' = words a \<or>
      (\<exists>w. words a' = words a @ [w] \<and> w_text w \<in> set (dict a) \<and> w_y w = 0 \<and> 0 \<le> w_x w \<and>
           w_x w \<le> max 0 (screenWidth - int (length (w_text w)) - 1) \<and>
           (int (length (w_text w)) \<le> screenWidth \<longrightarrow>
              w_x w + int (length (w_text w)) \<le> screenWidth) \<and>
           w_text w = dict a ! nat (fst (the (Intn (int (length (dict a))) (stl g)))) \<and>
           w_x w = fst (the (Intn (max 0 (screenWidth - int (length (w_text w)) - 1) + 1)
                                  (stl (stl g)))))) \<and>
   (maybeAddWordB b h = Some (b', h') \<longrightarrow>
      words b' = words b \<or>
      (\<exists>w. words b' = words b @ [w] \<and> w_text w \<in> set (dict b) \<and> w_y w = 0 \<and> 0 \<le> w_x w \<and>
           w_x w \<le> max 0 (screenWidth - int (length (w_text w)) - 1) \<and>
           (int (length (w_text w)) \<le> screenWidth \<longrightarrow>
              w_x w + int (length (w_text w)) \<le> screenWidth) \<and>
           (\<exists>s. (s = h \<or> s = stl h) \<and>
              w_text w = dict b ! nat (fst (the (Intn (int (length (dict b))) s))) \<and>
              w_x w = fst (the (Intn (max 0 (screenWidth - int (length (w_text w)) - 1) + 1)
                                     (stl s)))))) \<and>
   (UpdateA e a2 g2 = Some ((a2', c), g2') \<longrightarrow>
      (if e = TickMsg \<and> \<not> paused a2 \<and> \<not> gameOver a2
       then \<exists>new. words a2' =
                filter (\<lambda>w. w_y w < gameHeight) (map (\<lambda>w. w\<lparr>w_y := w_y w + 1\<rparr>) (words a2)) @ new \<and>
              length new \<le> 1 \<and>
              (\<forall>w\<in>set new. w_y w = 0 \<and> w_text w \<in> set (dict a2) \<and> 0 \<le> w_x w \<and>
                 w_x w \<le> max 0 (screenWidth - int (length (w_text w)) - 1))
       else map place (words a2') = map place (words a2) \<or>
            (\<exists>j<length (words a2). words a2' = take j (words a2) @ drop (Suc j) (words a2)))) \<and>
   (UpdateB e b2 h2 = Some ((b2', c), h2') \<longrightarrow>
      (if e = TickMsg \<and> \<not> paused b2 \<and> \<not> gameOver b2
       then \<exists>new. words b2' =
                filter (\<lambda>w. w_y w < gameHeight) (map (\<lambda>w. w\<lparr>w_y := w_y w + 1\<rparr>) (words b2)) @ new \<and>
              length new \<le> 1 \<and>
              (\<forall>w\<in>set new. w_y w = 0 \<and> w_text w \<in> set (dict b2) \<and> 0 \<le> w_x w \<and>
                 w_x w \<le> max 0 (screenWidth - int (length (w_text w)) - 1))
       else map place (words b2') = map place (words b2) \<or>
            (\<exists>j<length (words b2). words b2' = take j (words b2) @ drop (Suc j) (words b2))))"
  using maybeAddWordA_placement[of a g a' g'] maybeAddWordB_placement[of b h b' h']
    UpdateA_words[of e a2 g2 a2' c g2'] UpdateB_words[of e b2 h2 b2' c h2']
  by blast

text \<open>
  A spawn into the empty initial state, and a tick with one word on the last row and one
  in mid-fall: the first is removed, the second moves one row down in its column, and
  one word is appended at row 0.
\<close>

theorem spawn_placement_witness:
  "maybeAddWordA (initialModelA [''cat''] 0) (sconst 0)
     = Some ((initialModelA [''cat''] 0)\<lparr>words := [cat0]\<rparr>, sconst 0) \<and>
   maybeAddWordB (initialModelB [''cat''] 0) (sconst 0)
     = Some ((initialModelB [''cat''] 0)\<lparr>words := [cat0]\<rparr>, sconst 0) \<and>
   UpdateA TickMsg ((initialModelA [''cat''] 0)\<lparr>words := [dog20, cat7]\<rparr>) (sconst 0)
     = Some (((initialModelA [''cat''] 0)\<lparr>words := [cat7\<lparr>w_y := 8\<rparr>, cat0], lives := 2\<rparr>, TickCmd), sconst 0) \<and>
   UpdateB TickMsg ((initialModelB [''cat''] 0)\<lparr>words := [dog20, cat7]\<rparr>) (sconst 0)
     = Some (((initialModelB [''cat''] 0)\<lparr>words := [cat7\<lparr>w_y := 8\<rparr>, cat0], lives := 2\<rparr>, TickCmd), sconst 0) \<and>
   (\<exists>w. [cat0] = [w] \<and> w_text w = ''cat'' \<and> w_y w = 0 \<and> 0 \<le> w_x w \<and> w_x w \<le> 76 \<and>
        w_x w + 3 \<le> screenWidth) \<and>
   (\<exists>new. [cat7\<lparr>w_y := 8\<rparr>, cat0] = [cat7\<lparr>w_y := 8\<rparr>] @ new \<and> length new \<le> 1 \<and>
        w_x (hd new) = 0 \<and> w_y (hd new) = 0)"
  using spawn_placement[of "initialModelA [''cat''] 0" "sconst 0" "(initialModelA [''cat''] 0)\<lparr>words := [cat0]\<rparr>" "sconst 0"
          "initialModelB [''cat''] 0" "sconst 0" "(initialModelB [''cat''] 0)\<lparr>words := [cat0]\<rparr>" "sconst 0" TickMsg
          "(initialModelA [''cat''] 0)\<lparr>words := [dog20, cat7]\<rparr>" "sconst 0"
          "(initialModelA [''cat''] 0)\<lparr>words := [cat7\<lparr>w_y := 8\<rparr>, cat0], lives := 2\<rparr>" TickCmd "sconst 0"
          "(initialModelB [''cat''] 0)\<lparr>words := [dog20, cat7]\<rparr>" "sconst 0"
          "(initialModelB [''cat''] 0)\<lparr>words := [cat7\<lparr>w_y := 8\<rparr>, cat0], lives := 2\<rparr>" "sconst 0"]
  by (simp add: run_simps cat0_def cat7_def dog20_def)

text \<open>
  C9 as stated fails in variant A, whose loader keeps lines of any length: a dictionary
  line of 81 letters is loaded, spawned at column 0, and ends at column 81 of a grid that
  is 80 wide.
\<close>

theorem spawn_overhang_counterexample:
  "loadDictionaryA (File [wide] None) = ([wide], None) \<and>
   UpdateA TickMsg (initialModelA [wide] 0) (sconst 0)
     = Some (((initialModelA [wide] 0)
                \<lparr>words := [\<lparr>w_text = wide, w_x = 0, w_y = 0, w_matched = 0\<rparr>]\<rparr>, TickCmd),
             sconst 0) \<and>
   0 + int (length wide) = 81 \<and> screenWidth = 80"
proof -
  have asc: "list_all isASCII [wide]" by code_simp
  have r: "map asciiToLower (filter (\<lambda>w. 0 < length w) (map asciiTrimSpace [wide])) = [wide]"
    by code_simp
  have l: "loadDictionaryA (File [wide] None) = ([wide], None)"
    using loadDictionaryA_ascii[OF asc, of None] unfolding r .
  show ?thesis unfolding l by (simp add: run_simps wide_def)
qed

subsection \<open>What a keystroke leaves alone\<close>

text \<open>
  C10. A keystroke in a state that is not game over leaves lives as it is and changes no
  word's text, column or row; it removes at most one word, and only a letter that
  completes that word does; a backspace changes the input buffer and the current-word
  reference and nothing else.
\<close>

theorem keystroke_frame:
  "(\<not> gameOver a \<longrightarrow>
      (\<exists>m' c g'. UpdateA (KeyMsg k) a g = Some ((m', c), g') \<and> lives m' = lives a \<and>
         (map place (words m') = map place (words a) \<or>
          (\<exists>j<length (words a). isLetter k \<and> w_text (words a ! j) = input a @ k \<and>
             words m' = take j (words a) @ drop (Suc j) (words a))) \<and>
         (k = ''backspace'' \<longrightarrow> m' = a\<lparr>input := butlast (input a), current := None\<rparr> \<and> g' = g))) \<and>
   (\<not> gameOver b \<longrightarrow>
      (\<exists>m' c h'. UpdateB (KeyMsg k) b h = Some ((m', c), h') \<and> lives m' = lives b \<and>
         (map place (words m') = map place (words b) \<or>
          (\<exists>j<length (words b). isLetter k \<and> w_text (words b ! j) = input b @ k \<and>
             words m' = take j (words b) @ drop (Suc j) (words b))) \<and>
         (k = ''backspace'' \<longrightarrow> m' = b\<lparr>input := butlast (input b), current := None\<rparr> \<and> h' = h)))"
proof (intro conjI impI)
  assume "\<not> gameOver a"
  from keyA_frame[OF this, of k g]
  show "\<exists>m' c g'. UpdateA (KeyMsg k) a g = Some ((m', c), g') \<and> lives m' = lives a \<and>
         (map place (words m') = map place (words a) \<or>
          (\<exists>j<length (words a). isLetter k \<and> w_text (words a ! j) = input a @ k \<and>
             words m' = take j (words a) @ drop (Suc j) (words a))) \<and>
         (k = ''backspace'' \<longrightarrow> m' = a\<lparr>input := butlast (input a), current := None\<rparr> \<and> g' = g)"
    by blast
next
  assume "\<not> gameOver b"
  from keyB_frame[OF this, of k h]
  show "\<exists>m' c h'. UpdateB (KeyMsg k) b h = Some ((m', c), h') \<and> lives m' = lives b \<and>
         (map place (words m') = map place (words b) \<or>
          (\<exists>j<length (words b). isLetter k \<and> w_text (words b ! j) = input b @ k \<and>
             words m' = take j (words b) @ drop (Suc j) (words b))) \<and>
         (k = ''backspace'' \<longrightarrow> m' = b\<lparr>input := butlast (input b), current := None\<rparr> \<and> h' = h)"
    by blast
qed

theorem keystroke_frame_witness:
  "(\<exists>m' c g'. UpdateA (KeyMsg ''backspace'') ((initialModelA [''cat'', ''dog''] 0)\<lparr>words := [dog20, cat7], input := ''ca'', current := Some 1\<rparr>) (sconst 0)
       = Some ((m', c), g') \<and> lives m' = 3 \<and>
       m' = (initialModelA [''cat'', ''dog''] 0)\<lparr>words := [dog20, cat7], input := ''c''\<rparr> \<and> g' = sconst 0) \<and>
   (\<exists>m' c h'. UpdateB (KeyMsg ''backspace'') ((initialModelB [''cat'', ''dog''] 0)\<lparr>words := [dog20, cat7], input := ''ca'', current := Some 1\<rparr>) (sconst 0)
       = Some ((m', c), h') \<and> lives m' = 3 \<and>
       m' = (initialModelB [''cat'', ''dog''] 0)\<lparr>words := [dog20, cat7], input := ''c''\<rparr> \<and> h' = sconst 0)"
  using keystroke_frame[of "(initialModelA [''cat'', ''dog''] 0)\<lparr>words := [dog20, cat7], input := ''ca'', current := Some 1\<rparr>"
          "''backspace''" "sconst 0" "(initialModelB [''cat'', ''dog''] 0)\<lparr>words := [dog20, cat7], input := ''ca'', current := Some 1\<rparr>" "sconst 0"]
  by (simp add: initialModelA_def initialModelB_def dog20_def cat7_def)

end
